theory Spec2Isabelle
  imports Complex_Main "HOL-Library.Signed_Division"
begin

section \<open>Numbers, exceptions and container access\<close>

text \<open>
  The source computes with C++ \<^verbatim>\<open>double\<close>. Stored quantities of hits (times, widths,
  photo-electron counts) are taken as real numbers. Results of the divisions and of
  \<^verbatim>\<open>std::sqrt\<close>, which in IEEE arithmetic can be an infinity or a NaN instead of raising
  anything, are values of \<open>dbl\<close>: a real number, one of the two infinities, or NaN, with the
  IEEE rules for these special values. The sign of zero is not part of the model (every
  zero is taken as +0). Rounding is part of the model in FillAccumulator, whose test
  recomputes the sum of a bin before the hit by a subtraction: there the rounding of the
  sum and of the difference decides the outcome. Everywhere else a sum, a product or a
  quotient is the exact real number, and \<^verbatim>\<open>std::exp\<close> and \<^verbatim>\<open>std::sqrt\<close> are the exact real
  functions: no rounding, no overflow and no underflow (the code's \<^verbatim>\<open>std::exp\<close> returns 0
  for an argument below about -745).
\<close>

datatype dbl = Fin real | PInf | NInf | NaN

fun dneg :: "dbl \<Rightarrow> dbl" where
  "dneg (Fin x) = Fin (- x)"
| "dneg PInf = NInf"
| "dneg NInf = PInf"
| "dneg NaN = NaN"

fun dadd :: "dbl \<Rightarrow> dbl \<Rightarrow> dbl" where
  "dadd (Fin x) (Fin y) = Fin (x + y)"
| "dadd NaN _ = NaN"
| "dadd _ NaN = NaN"
| "dadd PInf NInf = NaN"
| "dadd NInf PInf = NaN"
| "dadd PInf _ = PInf"
| "dadd _ PInf = PInf"
| "dadd NInf _ = NInf"
| "dadd _ NInf = NInf"

definition dsub :: "dbl \<Rightarrow> dbl \<Rightarrow> dbl" where
  "dsub a b = dadd a (dneg b)"

fun dmul :: "dbl \<Rightarrow> dbl \<Rightarrow> dbl" where
  "dmul (Fin x) (Fin y) = Fin (x * y)"
| "dmul NaN _ = NaN"
| "dmul _ NaN = NaN"
| "dmul PInf (Fin y) = (if y = 0 then NaN else if 0 < y then PInf else NInf)"
| "dmul NInf (Fin y) = (if y = 0 then NaN else if 0 < y then NInf else PInf)"
| "dmul (Fin x) PInf = (if x = 0 then NaN else if 0 < x then PInf else NInf)"
| "dmul (Fin x) NInf = (if x = 0 then NaN else if 0 < x then NInf else PInf)"
| "dmul PInf PInf = PInf"
| "dmul PInf NInf = NInf"
| "dmul NInf PInf = NInf"
| "dmul NInf NInf = PInf"

fun ddiv :: "dbl \<Rightarrow> dbl \<Rightarrow> dbl" where
  "ddiv (Fin x) (Fin y) =
     (if y \<noteq> 0 then Fin (x / y)
      else if x = 0 then NaN else if 0 < x then PInf else NInf)"
| "ddiv NaN _ = NaN"
| "ddiv _ NaN = NaN"
| "ddiv (Fin x) PInf = Fin 0"
| "ddiv (Fin x) NInf = Fin 0"
| "ddiv PInf (Fin y) = (if 0 \<le> y then PInf else NInf)"
| "ddiv NInf (Fin y) = (if 0 \<le> y then NInf else PInf)"
| "ddiv PInf PInf = NaN"
| "ddiv PInf NInf = NaN"
| "ddiv NInf PInf = NaN"
| "ddiv NInf NInf = NaN"

fun dsqrt :: "dbl \<Rightarrow> dbl" where
  "dsqrt (Fin x) = (if x < 0 then NaN else Fin (sqrt x))"
| "dsqrt PInf = PInf"
| "dsqrt NInf = NaN"
| "dsqrt NaN = NaN"

fun dexp :: "dbl \<Rightarrow> dbl" where
  "dexp (Fin x) = Fin (exp x)"
| "dexp PInf = PInf"
| "dexp NInf = Fin 0"
| "dexp NaN = NaN"

fun dabs :: "dbl \<Rightarrow> dbl" where
  "dabs (Fin x) = Fin \<bar>x\<bar>"
| "dabs PInf = PInf"
| "dabs NInf = PInf"
| "dabs NaN = NaN"

text \<open>The comparison \<^verbatim>\<open>a < b\<close> of two doubles: false as soon as one side is NaN.\<close>

fun dless :: "dbl \<Rightarrow> dbl \<Rightarrow> bool" where
  "dless (Fin x) (Fin y) = (x < y)"
| "dless NaN _ = False"
| "dless _ NaN = False"
| "dless (Fin x) PInf = True"
| "dless (Fin x) NInf = False"
| "dless PInf _ = False"
| "dless NInf NInf = False"
| "dless NInf _ = True"

text \<open>
  The rounding of a real number to a double: to the nearest multiple of the spacing of
  the doubles around it, a tie to the multiple with the even significand. The spacing is
  \<open>2 ^ (e - 52)\<close> for a number of magnitude in \<open>[2 ^ e, 2 ^ (e + 1))\<close>, and that of the
  subnormal numbers, \<open>2 ^ (- 1074)\<close>, below \<open>2 ^ (- 1022)\<close>. The exponent is not bounded
  above: a result of magnitude \<open>2 ^ 1024\<close> or more stands for an overflow.
\<close>

definition rne :: "real \<Rightarrow> int" where
  "rne y = (if y - of_int \<lfloor>y\<rfloor> < 1 / 2 then \<lfloor>y\<rfloor>
            else if 1 / 2 < y - of_int \<lfloor>y\<rfloor> then \<lfloor>y\<rfloor> + 1
            else if even \<lfloor>y\<rfloor> then \<lfloor>y\<rfloor> else \<lfloor>y\<rfloor> + 1)"

definition dexponent :: "real \<Rightarrow> int" where
  "dexponent x = max (- 1022) \<lfloor>log 2 \<bar>x\<bar>\<rfloor>"

definition dulp :: "real \<Rightarrow> real" where
  "dulp x = 2 powr (of_int (dexponent x) - 52)"

definition dround :: "real \<Rightarrow> real" where
  "dround x = (if x = 0 then 0 else of_int (rne (x / dulp x)) * dulp x)"

text \<open>
  \<^verbatim>\<open>std::vector::at\<close> and \<^verbatim>\<open>std::map::at\<close> throw \<^verbatim>\<open>std::out_of_range\<close>; an unchecked
  access out of range, an \<^verbatim>\<open>erase\<close> past the end and an out-of-range conversion of a
  double to an unsigned integer are undefined behaviour. Both are outcomes of the model.
  \<open>NonFinite\<close> marks the two places where the model does not follow the source: a hit
  whose PE would be an infinity or a NaN (a single-photoelectron size of zero), which the
  real-valued PE of a hit cannot hold, and a bin sum that overflows to an infinity, which
  the real-valued bin cannot hold.
\<close>

datatype error = OutOfRange | UndefinedBehaviour | NonFinite

definition vec_at :: "'a list \<Rightarrow> nat \<Rightarrow> error + 'a" where
  "vec_at xs i = (if i < length xs then Inr (xs ! i) else Inl OutOfRange)"

text \<open>An \<^verbatim>\<open>int\<close> used as index is converted to \<^verbatim>\<open>size_t\<close>: a negative one becomes
  a huge index, which \<^verbatim>\<open>at\<close> rejects.\<close>

definition vec_at_int :: "'a list \<Rightarrow> int \<Rightarrow> error + 'a" where
  "vec_at_int xs i = (if 0 \<le> i \<and> nat i < length xs then Inr (xs ! nat i) else Inl OutOfRange)"

text \<open>A range-for or counting loop whose body may throw: the first exception ends it.\<close>

fun foldE :: "('a \<Rightarrow> 's \<Rightarrow> error + 's) \<Rightarrow> 'a list \<Rightarrow> 's \<Rightarrow> error + 's" where
  "foldE f [] s = Inr s"
| "foldE f (x # xs) s = (case f x s of Inl e \<Rightarrow> Inl e | Inr s' \<Rightarrow> foldE f xs s')"

section \<open>Hits and flashes\<close>

text \<open>The fields of \<^verbatim>\<open>recob::OpHit\<close> in the order of the constructor call in ConstructHit.\<close>

record OpHit =
  OpChannel :: int
  PeakTime :: real
  PeakTimeAbs :: real
  Frame :: nat
  Width :: real
  Area :: real
  Amplitude :: real
  PE :: real
  FastToTotal :: real

text \<open>The fields of \<^verbatim>\<open>recob::OpFlash\<close> in the order of the constructor call in ConstructFlash.\<close>

record OpFlash =
  Time :: dbl
  TimeWidth :: real
  AbsTime :: dbl
  FlashFrame :: nat
  PEs :: "real list"
  InBeamFrame :: bool
  OnBeamTime :: int
  FlashFastToTotal :: dbl
  YCenter :: dbl
  YWidth :: dbl
  ZCenter :: dbl
  ZWidth :: dbl
  WireCenters :: "dbl list"
  WireWidths :: "dbl list"

text \<open>Modelled from the spec: \<^verbatim>\<open>recob::OpFlash::TotalPE()\<close> belongs to the data-product
  library; the flash's PE is the sum of its per-channel PE vector.\<close>

definition TotalPE :: "OpFlash \<Rightarrow> real" where
  "TotalPE f = sum_list (PEs f)"


section \<open>External services and inputs\<close>

text \<open>
  The time service, the geometry service and the pulse reconstruction are not part of the
  algorithms; they are parameters. A waveform carries the pulses that the pulse
  reconstruction returns for it. Only the pulse fields that the algorithms read are kept.
\<close>

record pulse_param =
  peak :: real
  area :: real
  t_start :: real
  t_end :: real
  t_max :: real

record Waveform =
  WfFrame :: nat
  ChannelNumber :: int
  TimeSlice :: nat
  Pulses :: "pulse_param list"

text \<open>\<open>FrameTicks\<close> is \<^verbatim>\<open>OpticalClock().FrameTicks()\<close>, \<open>TickPeriod\<close> is
  \<^verbatim>\<open>OpticalClock().TickPeriod()\<close> and \<open>BeamGateFrame\<close> is
  \<^verbatim>\<open>OpticalClock().Frame(ts.BeamGateTime())\<close>.\<close>

record TimeService =
  FrameTicks :: nat
  OpticalTick2Time :: "real \<Rightarrow> nat \<Rightarrow> nat \<Rightarrow> real"
  OpticalTick2BeamTime :: "real \<Rightarrow> nat \<Rightarrow> nat \<Rightarrow> real"
  TickPeriod :: real
  BeamGateFrame :: nat

text \<open>\<open>OpDetCenter\<close> is the centre of the optical detector of a channel
  (\<^verbatim>\<open>OpChannelToCryoOpDet\<close> followed by \<^verbatim>\<open>GetCenter\<close>).\<close>

record Geometry =
  NOpChannels :: nat
  Nplanes :: nat
  OpDetCenter :: "int \<Rightarrow> real \<times> real \<times> real"
  NearestWire :: "real \<times> real \<times> real \<Rightarrow> nat \<Rightarrow> nat"

section \<open>Hit constructor\<close>

definition ConstructHit ::
  "real \<Rightarrow> int \<Rightarrow> nat \<Rightarrow> nat \<Rightarrow> pulse_param \<Rightarrow> TimeService \<Rightarrow> real \<Rightarrow> OpHit list
     \<Rightarrow> error + OpHit list" where
  "ConstructHit HitThreshold Channel timeSlice frame pulse ts SPESize HitVector =
     (if peak pulse < HitThreshold then Inr HitVector
      else if SPESize = 0 then Inl NonFinite
      else Inr (HitVector @
        [\<lparr>OpChannel = Channel,
          PeakTime = OpticalTick2BeamTime ts (t_max pulse) timeSlice frame,
          PeakTimeAbs = OpticalTick2Time ts (t_max pulse) timeSlice frame,
          Frame = frame,
          Width = (t_end pulse - t_start pulse) * TickPeriod ts,
          Area = area pulse,
          Amplitude = peak pulse,
          PE = peak pulse / SPESize,
          FastToTotal = 0\<rparr>]))"

section \<open>Dual accumulator\<close>

text \<open>The conversion of the quotient to \<^verbatim>\<open>unsigned int\<close> truncates; it is undefined
  when the truncated value is not representable, which includes a division by a zero
  bin width.\<close>

definition GetAccumIndex :: "real \<Rightarrow> nat \<Rightarrow> int \<Rightarrow> real \<Rightarrow> error + nat" where
  "GetAccumIndex TMax timeSlice BinWidth BinOffset =
     (if BinWidth = 0 then Inl UndefinedBehaviour
      else if - 1 < ((TMax + real timeSlice) + BinOffset) / real_of_int BinWidth \<and>
              ((TMax + real timeSlice) + BinOffset) / real_of_int BinWidth < 2 ^ 32
      then Inr (nat \<lfloor>((TMax + real timeSlice) + BinOffset) / real_of_int BinWidth\<rfloor>)
      else Inl UndefinedBehaviour)"

record Accumulator =
  Binned :: "real list"
  Contributors :: "int list list"
  FlashesInAccumulator :: "int list"

text \<open>An \<^verbatim>\<open>unsigned int\<close> stored into a \<^verbatim>\<open>std::vector<int>\<close>.\<close>

definition uint_to_int :: "nat \<Rightarrow> int" where
  "uint_to_int n =
     (if n mod 2 ^ 32 < 2 ^ 31 then int (n mod 2 ^ 32) else int (n mod 2 ^ 32) - 2 ^ 32)"

text \<open>The bin holds the rounded sum \<^verbatim>\<open>Binned.at(AccumIndex) += PE\<close>; the test compares
  this sum and the rounded difference \<^verbatim>\<open>Binned.at(AccumIndex) - PE\<close> with the threshold.
  The difference is not the sum that the bin held before the hit, it is computed anew
  from the rounded sum.\<close>

definition FillAccumulator :: "nat \<Rightarrow> nat \<Rightarrow> real \<Rightarrow> real \<Rightarrow> Accumulator \<Rightarrow> error + Accumulator" where
  "FillAccumulator AccumIndex HitIndex pe FlashThreshold acc =
     (case vec_at (Contributors acc) AccumIndex of
        Inl e \<Rightarrow> Inl e
      | Inr c \<Rightarrow>
          (case vec_at (Binned acc) AccumIndex of
             Inl e \<Rightarrow> Inl e
           | Inr b \<Rightarrow>
               if 2 ^ 1024 \<le> \<bar>dround (b + pe)\<bar> then Inl NonFinite
               else
               Inr \<lparr>Binned = (Binned acc)[AccumIndex := dround (b + pe)],
                    Contributors = (Contributors acc)[AccumIndex := c @ [uint_to_int HitIndex]],
                    FlashesInAccumulator =
                      (if dround (b + pe) \<ge> FlashThreshold \<and>
                          dround (dround (b + pe) - pe) < FlashThreshold
                       then FlashesInAccumulator acc @ [uint_to_int AccumIndex]
                       else FlashesInAccumulator acc)\<rparr>))"

text \<open>The accumulators as ProcessFrame creates them. \<^verbatim>\<open>FrameTicks()\<close> is taken to
  return an \<^verbatim>\<open>unsigned int\<close>, so that the number of bins is computed in unsigned
  32-bit arithmetic; for a positive bin width and sums below \<open>2^32\<close> this is the plain
  quotient.\<close>

definition NBins :: "TimeService \<Rightarrow> int \<Rightarrow> nat" where
  "NBins ts BinWidth =
     ((FrameTicks ts + 3000 + nat (BinWidth mod 2 ^ 32)) mod 2 ^ 32) div nat (BinWidth mod 2 ^ 32)"

definition EmptyAccumulator :: "nat \<Rightarrow> Accumulator" where
  "EmptyAccumulator n =
     \<lparr>Binned = replicate n 0, Contributors = replicate n [], FlashesInAccumulator = []\<rparr>"

text \<open>The body of the loop over the pulses of one waveform. ConstructHit appends nothing
  for a pulse below the hit threshold; the two FillAccumulator calls that follow are made in
  any case, with the index and the PE of the last hit of the hit vector.\<close>

definition ProcessPulse ::
  "real \<Rightarrow> real \<Rightarrow> int \<Rightarrow> TimeService \<Rightarrow> real list \<Rightarrow> nat \<Rightarrow> int \<Rightarrow> nat \<Rightarrow> pulse_param
     \<Rightarrow> OpHit list \<times> Accumulator \<times> Accumulator
     \<Rightarrow> error + OpHit list \<times> Accumulator \<times> Accumulator" where
  "ProcessPulse HitThreshold FlashThreshold BinWidth ts SPESize frame Channel timeSlice pulse s =
     (case s of (HitVector, Acc1, Acc2) \<Rightarrow>
      (case vec_at_int SPESize Channel of
         Inl e \<Rightarrow> Inl e
       | Inr spe \<Rightarrow>
      (case ConstructHit HitThreshold Channel timeSlice frame pulse ts spe HitVector of
         Inl e \<Rightarrow> Inl e
       | Inr hv \<Rightarrow>
      (case GetAccumIndex (t_max pulse) timeSlice BinWidth 0 of
         Inl e \<Rightarrow> Inl e
       | Inr AccumIndex1 \<Rightarrow>
      if hv = [] then Inl UndefinedBehaviour
      else
      (case FillAccumulator AccumIndex1 ((length hv - 1) mod 2 ^ 32) (PE (last hv))
              FlashThreshold Acc1 of
         Inl e \<Rightarrow> Inl e
       | Inr Acc1' \<Rightarrow>
      (case GetAccumIndex (t_max pulse) timeSlice BinWidth (real_of_int (BinWidth sdiv 2)) of
         Inl e \<Rightarrow> Inl e
       | Inr AccumIndex2 \<Rightarrow>
      (case FillAccumulator AccumIndex2 ((length hv - 1) mod 2 ^ 32) (PE (last hv))
              FlashThreshold Acc2 of
         Inl e \<Rightarrow> Inl e
       | Inr Acc2' \<Rightarrow> Inr (hv, Acc1', Acc2'))))))))"

text \<open>The body of the loop over the waveforms of the frame.\<close>

definition ProcessWaveform ::
  "real \<Rightarrow> real \<Rightarrow> int \<Rightarrow> TimeService \<Rightarrow> real list \<Rightarrow> (int \<rightharpoonup> int) \<Rightarrow> nat \<Rightarrow> nat \<Rightarrow> Waveform
     \<Rightarrow> OpHit list \<times> Accumulator \<times> Accumulator
     \<Rightarrow> error + OpHit list \<times> Accumulator \<times> Accumulator" where
  "ProcessWaveform HitThreshold FlashThreshold BinWidth ts SPESize ChannelMap frame NOpCh wfm s =
     (case ChannelMap (ChannelNumber wfm) of
        None \<Rightarrow> Inl OutOfRange
      | Some Channel \<Rightarrow>
          if Channel < 0 \<or> Channel > int NOpCh then Inr s
          else if TimeSlice wfm > FrameTicks ts then Inr s
          else foldE (ProcessPulse HitThreshold FlashThreshold BinWidth ts SPESize frame
                        Channel (TimeSlice wfm))
                     (Pulses wfm) s)"


section \<open>Flash assigner\<close>

text \<open>
  A \<^verbatim>\<open>std::map\<close> is a list of key-value pairs kept in the order of the map's comparison
  \<open>before\<close>. \<open>map_update before k f d m\<close> is \<^verbatim>\<open>m[k] = f(m[k])\<close>: the entry of \<open>k\<close> is created
  with the default value \<open>d\<close> when the map has none.
\<close>

fun map_update ::
  "('k \<Rightarrow> 'k \<Rightarrow> bool) \<Rightarrow> 'k \<Rightarrow> ('v \<Rightarrow> 'v) \<Rightarrow> 'v \<Rightarrow> ('k \<times> 'v) list \<Rightarrow> ('k \<times> 'v) list" where
  "map_update before k f d [] = [(k, f d)]"
| "map_update before k f d ((k', v) # m) =
     (if before k k' then (k, f d) # (k', v) # m
      else if before k' k then (k', v) # map_update before k f d m
      else (k', f v) # m)"

definition FillFlashesBySizeMap ::
  "int list \<Rightarrow> real list \<Rightarrow> int \<Rightarrow> (real \<times> (int \<times> int list) list) list
     \<Rightarrow> error + (real \<times> (int \<times> int list) list) list" where
  "FillFlashesBySizeMap FlashesInAcc BinnedPE Accumulator FlashesBySize =
     foldE (\<lambda>flash m.
              case vec_at_int BinnedPE flash of
                Inl e \<Rightarrow> Inl e
              | Inr sz \<Rightarrow>
                  Inr (map_update (\<lambda>a b. a > b) sz
                         (map_update (\<lambda>a b. a < b) Accumulator (\<lambda>v. v @ [flash]) []) [] m))
           FlashesInAcc FlashesBySize"

text \<open>The index \<^verbatim>\<open>HitIndex - NHits_prev\<close> is computed in \<^verbatim>\<open>size_t\<close>; when the
  difference is negative it wraps to a huge index, which \<^verbatim>\<open>at\<close> rejects as it rejects a
  negative \<open>int\<close>.\<close>

definition FillHitsThisFlash ::
  "int list list \<Rightarrow> int \<Rightarrow> int \<Rightarrow> int list \<Rightarrow> int list \<Rightarrow> error + int list" where
  "FillHitsThisFlash Contribs Bin NHits_prev HitClaimedByFlash HitsThisFlash =
     (case vec_at_int Contribs Bin of
        Inl e \<Rightarrow> Inl e
      | Inr c \<Rightarrow>
          foldE (\<lambda>HitIndex hs.
                   case vec_at_int HitClaimedByFlash (HitIndex - NHits_prev) of
                     Inl e \<Rightarrow> Inl e
                   | Inr claimed \<Rightarrow> if claimed = - 1 then Inr (hs @ [HitIndex]) else Inr hs)
                c HitsThisFlash)"

text \<open>The first loop of ClaimHits: the PE of a list of hit indices.\<close>

definition SumPE :: "OpHit list \<Rightarrow> int list \<Rightarrow> error + real" where
  "SumPE HitVector HitsThisFlash =
     foldE (\<lambda>Hit pe. case vec_at_int HitVector Hit of
                         Inl e \<Rightarrow> Inl e
                       | Inr h \<Rightarrow> Inr (pe + PE h))
           HitsThisFlash 0"

definition ClaimHits ::
  "OpHit list \<Rightarrow> int list \<Rightarrow> real \<Rightarrow> int list list \<Rightarrow> int \<Rightarrow> int list
     \<Rightarrow> error + int list list \<times> int list" where
  "ClaimHits HitVector HitsThisFlash FlashThreshold HitsPerFlash NHits_prev HitClaimedByFlash =
     (case SumPE HitVector HitsThisFlash of
        Inl e \<Rightarrow> Inl e
      | Inr pe \<Rightarrow>
          if pe < FlashThreshold then Inr (HitsPerFlash, HitClaimedByFlash)
          else
            (case foldE (\<lambda>Hit cl.
                           case vec_at_int cl (Hit - NHits_prev) of
                             Inl e \<Rightarrow> Inl e
                           | Inr claimed \<Rightarrow>
                               if claimed = - 1
                               then Inr (cl[nat (Hit - NHits_prev) :=
                                            int (length (HitsPerFlash @ [HitsThisFlash])) - 1])
                               else Inr cl)
                        HitsThisFlash HitClaimedByFlash of
               Inl e \<Rightarrow> Inl e
             | Inr cl \<Rightarrow> Inr (HitsPerFlash @ [HitsThisFlash], cl)))"

text \<open>The body of the innermost loop of AssignHitsToFlash, for one flagged bin of one
  accumulator.\<close>

definition ClaimBin ::
  "OpHit list \<Rightarrow> int list list \<Rightarrow> int list list \<Rightarrow> real \<Rightarrow> int \<Rightarrow> int \<Rightarrow> int
     \<Rightarrow> int list list \<times> int list \<Rightarrow> error + int list list \<times> int list" where
  "ClaimBin HitVector Contributors1 Contributors2 FlashThreshold NHits_prev Accumulator Bin s =
     (case s of (HitsPerFlash, HitClaimedByFlash) \<Rightarrow>
      (case (if Accumulator = 1
             then FillHitsThisFlash Contributors1 Bin NHits_prev HitClaimedByFlash []
             else if Accumulator = 2
             then FillHitsThisFlash Contributors2 Bin NHits_prev HitClaimedByFlash []
             else Inr []) of
         Inl e \<Rightarrow> Inl e
       | Inr HitsThisFlash \<Rightarrow>
           ClaimHits HitVector HitsThisFlash FlashThreshold HitsPerFlash NHits_prev
             HitClaimedByFlash))"

definition AssignHitsToFlash ::
  "int list \<Rightarrow> int list \<Rightarrow> real list \<Rightarrow> real list \<Rightarrow> int list list \<Rightarrow> int list list \<Rightarrow> nat
     \<Rightarrow> OpHit list \<Rightarrow> int list list \<Rightarrow> real \<Rightarrow> error + int list list" where
  "AssignHitsToFlash FlashesInAccumulator1 FlashesInAccumulator2 Binned1 Binned2
       Contributors1 Contributors2 NHits HitVector HitsPerFlash FlashThreshold =
     (case FillFlashesBySizeMap FlashesInAccumulator1 Binned1 1 [] of
        Inl e \<Rightarrow> Inl e
      | Inr m1 \<Rightarrow>
     (case FillFlashesBySizeMap FlashesInAccumulator2 Binned2 2 m1 of
        Inl e \<Rightarrow> Inl e
      | Inr FlashesBySize \<Rightarrow>
     (case foldE (\<lambda>itFlash.
                    foldE (\<lambda>itAcc.
                             foldE (ClaimBin HitVector Contributors1 Contributors2 FlashThreshold
                                      (int (length HitVector) - int NHits) (fst itAcc))
                                   (snd itAcc))
                          (snd itFlash))
                 FlashesBySize (HitsPerFlash, replicate NHits (- 1)) of
        Inl e \<Rightarrow> Inl e
      | Inr s \<Rightarrow> Inr (fst s))))"


section \<open>Flash refiner\<close>

text \<open>The variables that RefineHitsInFlash shares with FindSeedHit, AddHitToFlash and
  CheckAndStoreFlash by reference.\<close>

record RefineState =
  HitsUsed :: "bool list"
  HitsThisRefinedFlash :: "int list"
  PEAccumulated :: real
  FlashMaxTime :: real
  FlashMinTime :: real

text \<open>HitsBySize maps a PE to the hits of that PE, larger PE first. FindSeedHit and the
  growth scan walk the map and, within each entry, its hits: they walk the concatenation
  of the entries.\<close>

definition FillHitsBySize :: "OpHit list \<Rightarrow> int list \<Rightarrow> error + (real \<times> int list) list" where
  "FillHitsBySize HitVector HitsThisFlash =
     foldE (\<lambda>HitID m. case vec_at_int HitVector HitID of
                          Inl e \<Rightarrow> Inl e
                        | Inr h \<Rightarrow>
                            Inr (map_update (\<lambda>a b. a > b) (PE h) (\<lambda>v. v @ [HitID]) [] m))
           HitsThisFlash []"

text \<open>FindSeedHit returns at the first hit that is not used; when there is none the
  state is left as the caller prepared it.\<close>

fun FindSeedHit :: "int list \<Rightarrow> OpHit list \<Rightarrow> RefineState \<Rightarrow> error + RefineState" where
  "FindSeedHit [] HitVector st = Inr st"
| "FindSeedHit (HitID # ids) HitVector st =
     (case vec_at_int (HitsUsed st) HitID of
        Inl e \<Rightarrow> Inl e
      | Inr used \<Rightarrow>
          if used then FindSeedHit ids HitVector st
          else (case vec_at_int HitVector HitID of
                  Inl e \<Rightarrow> Inl e
                | Inr h \<Rightarrow>
                    Inr \<lparr>HitsUsed = (HitsUsed st)[nat HitID := True],
                         HitsThisRefinedFlash = [HitID],
                         PEAccumulated = PE h,
                         FlashMaxTime = PeakTime h + 0.5 * Width h,
                         FlashMinTime = PeakTime h - 0.5 * Width h\<rparr>))"

definition AddHitToFlash :: "int \<Rightarrow> OpHit \<Rightarrow> real \<Rightarrow> RefineState \<Rightarrow> error + RefineState" where
  "AddHitToFlash HitID currentHit WidthTolerance st =
     (case vec_at_int (HitsUsed st) HitID of
        Inl e \<Rightarrow> Inl e
      | Inr used \<Rightarrow>
          if used then Inr st
          else if \<bar>PeakTime currentHit - 0.5 * (FlashMaxTime st + FlashMinTime st)\<bar>
                   > WidthTolerance *
                       (0.5 * Width currentHit + 0.5 * (FlashMaxTime st - FlashMinTime st))
          then Inr st
          else Inr \<lparr>HitsUsed = (HitsUsed st)[nat HitID := True],
                    HitsThisRefinedFlash = HitsThisRefinedFlash st @ [HitID],
                    PEAccumulated = PEAccumulated st + PE currentHit,
                    FlashMaxTime = max (FlashMaxTime st) (PeakTime currentHit + 0.5 * Width currentHit),
                    FlashMinTime = min (FlashMinTime st) (PeakTime currentHit - 0.5 * Width currentHit)\<rparr>)"

text \<open>One pass of the growth scan over all hits of the coarse flash.\<close>

definition GrowScan :: "int list \<Rightarrow> OpHit list \<Rightarrow> real \<Rightarrow> RefineState \<Rightarrow> error + RefineState" where
  "GrowScan ids HitVector WidthTolerance st =
     foldE (\<lambda>HitID s. case vec_at_int HitVector HitID of
                          Inl e \<Rightarrow> Inl e
                        | Inr h \<Rightarrow> AddHitToFlash HitID h WidthTolerance s)
           ids st"

text \<open>The inner \<^verbatim>\<open>while\<close> loop: scan again as long as the last scan added a hit.\<close>

partial_function (option) GrowLoop ::
  "int list \<Rightarrow> OpHit list \<Rightarrow> real \<Rightarrow> nat \<Rightarrow> RefineState \<Rightarrow> (error + RefineState) option" where
  "GrowLoop ids HitVector WidthTolerance NHitsThisRefinedFlash st =
     (if NHitsThisRefinedFlash < length (HitsThisRefinedFlash st)
      then (case GrowScan ids HitVector WidthTolerance st of
              Inl e \<Rightarrow> Some (Inl e)
            | Inr st' \<Rightarrow>
                GrowLoop ids HitVector WidthTolerance (length (HitsThisRefinedFlash st)) st')
      else Some (Inr st))"

definition CheckAndStoreFlash ::
  "int list list \<Rightarrow> int list \<Rightarrow> real \<Rightarrow> real \<Rightarrow> bool list \<Rightarrow> error + int list list \<times> bool list" where
  "CheckAndStoreFlash RefinedHitsPerFlash HitsThisRefined PEAcc FlashThreshold Used =
     (if PEAcc \<ge> FlashThreshold then Inr (RefinedHitsPerFlash @ [HitsThisRefined], Used)
      else if length HitsThisRefined = 1 then Inr (RefinedHitsPerFlash, Used)
      else (case foldE (\<lambda>i u. case vec_at_int u (HitsThisRefined ! i) of
                                  Inl e \<Rightarrow> Inl e
                                | Inr _ \<Rightarrow> Inr (u[nat (HitsThisRefined ! i) := False]))
                       [1 ..< length HitsThisRefined] Used of
              Inl e \<Rightarrow> Inl e
            | Inr u \<Rightarrow> Inr (RefinedHitsPerFlash, u)))"

text \<open>The outer \<^verbatim>\<open>while(true)\<close> loop; it returns when FindSeedHit finds no hit.\<close>

partial_function (option) RefineLoop ::
  "int list \<Rightarrow> OpHit list \<Rightarrow> real \<Rightarrow> real \<Rightarrow> bool list \<Rightarrow> int list list
     \<Rightarrow> (error + int list list) option" where
  "RefineLoop ids HitVector WidthTolerance FlashThreshold Used RefinedHitsPerFlash =
     (case FindSeedHit ids HitVector
             \<lparr>HitsUsed = Used, HitsThisRefinedFlash = [], PEAccumulated = 0,
              FlashMaxTime = 0, FlashMinTime = 0\<rparr> of
        Inl e \<Rightarrow> Some (Inl e)
      | Inr st1 \<Rightarrow>
          if length (HitsThisRefinedFlash st1) = 0 then Some (Inr RefinedHitsPerFlash)
          else (case GrowLoop ids HitVector WidthTolerance 0 st1 of
                  None \<Rightarrow> None
                | Some (Inl e) \<Rightarrow> Some (Inl e)
                | Some (Inr st2) \<Rightarrow>
                    (case CheckAndStoreFlash RefinedHitsPerFlash (HitsThisRefinedFlash st2)
                            (PEAccumulated st2) FlashThreshold (HitsUsed st2) of
                       Inl e \<Rightarrow> Some (Inl e)
                     | Inr r \<Rightarrow>
                         RefineLoop ids HitVector WidthTolerance FlashThreshold (snd r) (fst r))))"

definition RefineHitsInFlash ::
  "int list \<Rightarrow> OpHit list \<Rightarrow> int list list \<Rightarrow> real \<Rightarrow> real \<Rightarrow> (error + int list list) option" where
  "RefineHitsInFlash HitsThisFlash HitVector RefinedHitsPerFlash WidthTolerance FlashThreshold =
     (case FillHitsBySize HitVector HitsThisFlash of
        Inl e \<Rightarrow> Some (Inl e)
      | Inr HitsBySize \<Rightarrow>
          RefineLoop (concat (map snd HitsBySize)) HitVector WidthTolerance FlashThreshold
            (replicate (length HitVector) False) RefinedHitsPerFlash)"

text \<open>A loop whose body may throw and, as far as its definition goes, may not return.\<close>

fun foldEO :: "('a \<Rightarrow> 's \<Rightarrow> (error + 's) option) \<Rightarrow> 'a list \<Rightarrow> 's \<Rightarrow> (error + 's) option" where
  "foldEO f [] s = Some (Inr s)"
| "foldEO f (x # xs) s =
     (case f x s of None \<Rightarrow> None | Some (Inl e) \<Rightarrow> Some (Inl e) | Some (Inr s') \<Rightarrow> foldEO f xs s')"


section \<open>Flash builder\<close>

text \<open>The local sums of ConstructFlash, which AddHitContribution and GetHitGeometryInfo
  update by reference. \<open>SumTotalPE\<close> is the local \<^verbatim>\<open>TotalPE\<close>, \<open>SumPEs\<close> the local
  \<^verbatim>\<open>PEs\<close> and \<open>SumFastToTotal\<close> the local \<^verbatim>\<open>FastToTotal\<close>.\<close>

record FlashSums =
  MaxTime :: real
  MinTime :: real
  AveTime :: real
  SumFastToTotal :: real
  AveAbsTime :: real
  SumTotalPE :: real
  SumPEs :: "real list"
  sumw :: "real list"
  sumw2 :: "real list"
  sumy :: real
  sumy2 :: real
  sumz :: real
  sumz2 :: real

definition AddHitContribution :: "OpHit \<Rightarrow> FlashSums \<Rightarrow> error + FlashSums" where
  "AddHitContribution currentHit s =
     (case vec_at_int (SumPEs s) (OpChannel currentHit) of
        Inl e \<Rightarrow> Inl e
      | Inr p \<Rightarrow>
          Inr (s\<lparr>MaxTime := (if PeakTime currentHit > MaxTime s then PeakTime currentHit
                              else MaxTime s),
                 MinTime := (if PeakTime currentHit < MinTime s then PeakTime currentHit
                              else MinTime s),
                 AveTime := AveTime s + PeakTime currentHit * PE currentHit,
                 SumFastToTotal := SumFastToTotal s + FastToTotal currentHit * PE currentHit,
                 AveAbsTime := AveAbsTime s + PeakTimeAbs currentHit * PE currentHit,
                 SumTotalPE := SumTotalPE s + PE currentHit,
                 SumPEs := (SumPEs s)[nat (OpChannel currentHit) := p + PE currentHit]\<rparr>))"

text \<open>The wire number \<open>w\<close> is an \<^verbatim>\<open>unsigned int\<close>: \<^verbatim>\<open>w*w\<close> is computed modulo \<open>2^32\<close>
  before it is multiplied with the PE.\<close>

definition GetHitGeometryInfo :: "OpHit \<Rightarrow> Geometry \<Rightarrow> FlashSums \<Rightarrow> error + FlashSums" where
  "GetHitGeometryInfo currentHit geom s =
     (case foldE (\<lambda>p t.
                    case vec_at (sumw t) p of
                      Inl e \<Rightarrow> Inl e
                    | Inr a \<Rightarrow>
                        (case vec_at (sumw2 t) p of
                           Inl e \<Rightarrow> Inl e
                         | Inr b \<Rightarrow>
                             Inr (t\<lparr>sumw := (sumw t)[p := a +
                                      real (NearestWire geom (OpDetCenter geom (OpChannel currentHit)) p)
                                        * PE currentHit],
                                    sumw2 := (sumw2 t)[p := b +
                                      real ((NearestWire geom (OpDetCenter geom (OpChannel currentHit)) p
                                              * NearestWire geom (OpDetCenter geom (OpChannel currentHit)) p)
                                            mod 2 ^ 32)
                                        * PE currentHit]\<rparr>)))
                 [0 ..< Nplanes geom] s of
        Inl e \<Rightarrow> Inl e
      | Inr t \<Rightarrow>
          Inr (t\<lparr>sumy := sumy t + fst (snd (OpDetCenter geom (OpChannel currentHit))) * PE currentHit,
                 sumy2 := sumy2 t + fst (snd (OpDetCenter geom (OpChannel currentHit)))
                            * fst (snd (OpDetCenter geom (OpChannel currentHit))) * PE currentHit,
                 sumz := sumz t + snd (snd (OpDetCenter geom (OpChannel currentHit))) * PE currentHit,
                 sumz2 := sumz2 t + snd (snd (OpDetCenter geom (OpChannel currentHit)))
                            * snd (snd (OpDetCenter geom (OpChannel currentHit))) * PE currentHit\<rparr>))"

definition CalculateWidth :: "real \<Rightarrow> real \<Rightarrow> real \<Rightarrow> dbl" where
  "CalculateWidth sm sum_squared weights_sum =
     ddiv (dsqrt (Fin (sum_squared * weights_sum + sm * sm))) (Fin weights_sum)"

text \<open>The loop of ConstructFlash over the hits of the flash, from the initial sums.\<close>

definition FlashSumsOf :: "int list \<Rightarrow> OpHit list \<Rightarrow> Geometry \<Rightarrow> error + FlashSums" where
  "FlashSumsOf HitsPerFlashVec HitVector geom =
     foldE (\<lambda>HitID s.
              case vec_at_int HitVector HitID of
                Inl e \<Rightarrow> Inl e
              | Inr h \<Rightarrow>
                  (case AddHitContribution h s of
                     Inl e \<Rightarrow> Inl e
                   | Inr s1 \<Rightarrow> GetHitGeometryInfo h geom s1))
           HitsPerFlashVec
           \<lparr>MaxTime = - 1000000000, MinTime = 1000000000, AveTime = 0, SumFastToTotal = 0,
            AveAbsTime = 0, SumTotalPE = 0, SumPEs = replicate (NOpChannels geom) 0,
            sumw = replicate (Nplanes geom) 0, sumw2 = replicate (Nplanes geom) 0,
            sumy = 0, sumy2 = 0, sumz = 0, sumz2 = 0\<rparr>"

text \<open>Every quotient below has the divisor \<open>SumTotalPE\<close>, the total PE of the hits.\<close>

definition ConstructFlash ::
  "int list \<Rightarrow> OpHit list \<Rightarrow> OpFlash list \<Rightarrow> Geometry \<Rightarrow> nat \<Rightarrow> nat \<Rightarrow> real
     \<Rightarrow> error + OpFlash list" where
  "ConstructFlash HitsPerFlashVec HitVector FlashVector geom TrigFrame frame TrigCoinc =
     (case FlashSumsOf HitsPerFlashVec HitVector geom of
        Inl e \<Rightarrow> Inl e
      | Inr s \<Rightarrow>
          Inr (FlashVector @
            [\<lparr>Time = ddiv (Fin (AveTime s)) (Fin (SumTotalPE s)),
              TimeWidth = (MaxTime s - MinTime s) / 2,
              AbsTime = ddiv (Fin (AveAbsTime s)) (Fin (SumTotalPE s)),
              FlashFrame = frame,
              PEs = SumPEs s,
              InBeamFrame = (frame = TrigFrame),
              OnBeamTime =
                (if dless (dabs (ddiv (Fin (AveTime s)) (Fin (SumTotalPE s)))) (Fin TrigCoinc)
                 then 1 else 0),
              FlashFastToTotal = ddiv (Fin (SumFastToTotal s)) (Fin (SumTotalPE s)),
              YCenter = ddiv (Fin (sumy s)) (Fin (SumTotalPE s)),
              YWidth = CalculateWidth (sumy s) (sumy2 s) (SumTotalPE s),
              ZCenter = ddiv (Fin (sumz s)) (Fin (SumTotalPE s)),
              ZWidth = CalculateWidth (sumz s) (sumz2 s) (SumTotalPE s),
              WireCenters = map (\<lambda>p. ddiv (Fin (sumw s ! p)) (Fin (SumTotalPE s)))
                              [0 ..< Nplanes geom],
              WireWidths = map (\<lambda>p. CalculateWidth (sumw s ! p) (sumw2 s ! p) (SumTotalPE s))
                             [0 ..< Nplanes geom]\<rparr>]))"


section \<open>Late-light filter\<close>

text \<open>The local variable HypPE of GetLikelihoodLateLight.\<close>

definition HypPE :: "dbl \<Rightarrow> dbl \<Rightarrow> dbl \<Rightarrow> dbl \<Rightarrow> dbl \<Rightarrow> dbl" where
  "HypPE iPE iTime iWidth jTime jWidth =
     dmul (ddiv (dmul iPE jWidth) iWidth)
          (dexp (ddiv (dneg (dsub jTime iTime)) (Fin (16 / 10))))"

definition GetLikelihoodLateLight :: "dbl \<Rightarrow> dbl \<Rightarrow> dbl \<Rightarrow> dbl \<Rightarrow> dbl \<Rightarrow> dbl \<Rightarrow> dbl" where
  "GetLikelihoodLateLight iPE iTime iWidth jPE jTime jWidth =
     (if dless jTime iTime then Fin 1000000
      else ddiv (dsub jPE (HypPE iPE iTime iWidth jTime jWidth))
                (dsqrt (HypPE iPE iTime iWidth jTime jWidth)))"

text \<open>The test of the inner loop of MarkFlashesForRemoval on the flashes at positions
  \<open>i\<close> and \<open>j\<close>: the significance of \<open>j\<close> as late light of \<open>i\<close> is below 3.\<close>

definition LateLightBelowCut :: "OpFlash list \<Rightarrow> nat \<Rightarrow> nat \<Rightarrow> bool" where
  "LateLightBelowCut FlashVector i j =
     dless (GetLikelihoodLateLight
              (Fin (TotalPE (FlashVector ! i))) (Time (FlashVector ! i))
              (Fin (TimeWidth (FlashVector ! i)))
              (Fin (TotalPE (FlashVector ! j))) (Time (FlashVector ! j))
              (Fin (TimeWidth (FlashVector ! j))))
           (Fin 3)"

text \<open>The body of the loop over jFlash.\<close>

definition MarkInner ::
  "OpFlash list \<Rightarrow> nat \<Rightarrow> dbl \<Rightarrow> dbl \<Rightarrow> dbl \<Rightarrow> nat \<Rightarrow> bool list \<Rightarrow> error + bool list" where
  "MarkInner FlashVector BeginFlash iPE iTime iWidth jFlash MarkedForRemoval =
     (case vec_at MarkedForRemoval (jFlash - BeginFlash) of
        Inl e \<Rightarrow> Inl e
      | Inr marked \<Rightarrow>
          if marked then Inr MarkedForRemoval
          else (case vec_at FlashVector jFlash of
                  Inl e \<Rightarrow> Inl e
                | Inr fj \<Rightarrow>
                    if dless (GetLikelihoodLateLight iPE iTime iWidth
                                (Fin (TotalPE fj)) (Time fj) (Fin (TimeWidth fj)))
                             (Fin 3)
                    then Inr (MarkedForRemoval[jFlash - BeginFlash := True])
                    else Inr MarkedForRemoval))"

text \<open>The body of the loop over iFlash.\<close>

definition MarkOuter :: "OpFlash list \<Rightarrow> nat \<Rightarrow> nat \<Rightarrow> bool list \<Rightarrow> error + bool list" where
  "MarkOuter FlashVector BeginFlash iFlash MarkedForRemoval =
     (case vec_at FlashVector iFlash of
        Inl e \<Rightarrow> Inl e
      | Inr fi \<Rightarrow>
          foldE (MarkInner FlashVector BeginFlash
                   (Fin (TotalPE fi)) (Time fi) (Fin (TimeWidth fi)))
                [iFlash + 1 ..< length FlashVector] MarkedForRemoval)"

text \<open>The loop over iFlash runs while \<^verbatim>\<open>iFlash != FlashVector.size()\<close>; started past the
  end, its first \<^verbatim>\<open>at\<close> throws.\<close>

definition MarkFlashesForRemoval :: "OpFlash list \<Rightarrow> nat \<Rightarrow> bool list \<Rightarrow> error + bool list" where
  "MarkFlashesForRemoval FlashVector BeginFlash MarkedForRemoval =
     (if length FlashVector < BeginFlash then Inl OutOfRange
      else foldE (MarkOuter FlashVector BeginFlash)
                 [BeginFlash ..< length FlashVector] MarkedForRemoval)"

text \<open>The loop of RemoveFlashesFromVectors runs from the last mark down to the first; an
  \<^verbatim>\<open>erase\<close> at a position past the end is undefined.\<close>

definition RemoveFlashesFromVectors ::
  "bool list \<Rightarrow> OpFlash list \<Rightarrow> nat \<Rightarrow> int list list \<Rightarrow> error + OpFlash list \<times> int list list" where
  "RemoveFlashesFromVectors MarkedForRemoval FlashVector BeginFlash RefinedHitsPerFlash =
     foldE (\<lambda>iFlash s.
              case vec_at MarkedForRemoval iFlash of
                Inl e \<Rightarrow> Inl e
              | Inr marked \<Rightarrow>
                  if marked
                  then (if iFlash < length (snd s) \<and> BeginFlash + iFlash < length (fst s)
                        then Inr (take (BeginFlash + iFlash) (fst s)
                                    @ drop (Suc (BeginFlash + iFlash)) (fst s),
                                  take iFlash (snd s) @ drop (Suc iFlash) (snd s))
                        else Inl UndefinedBehaviour)
                  else Inr s)
           (rev [0 ..< length MarkedForRemoval]) (FlashVector, RefinedHitsPerFlash)"

text \<open>Modelled from the spec: the comparison \<^verbatim>\<open>recob::OpFlashSortByTime\<close> belongs to the
  data-product library; the spec has the flashes of the frame sorted by time ascending.
  The sort is an insertion sort that keeps flashes of equal time in their order: a flash
  is put before the flashes that follow it unless one of them is strictly earlier
  (\<^verbatim>\<open>std::sort\<close> leaves the order of equal elements open).\<close>

fun insert_by_time :: "OpFlash \<Rightarrow> OpFlash list \<Rightarrow> OpFlash list" where
  "insert_by_time f [] = [f]"
| "insert_by_time f (g # gs) =
     (if dless (Time g) (Time f) then g # insert_by_time f gs else f # g # gs)"

definition sort_flash_by_time :: "OpFlash list \<Rightarrow> OpFlash list" where
  "sort_flash_by_time fs = foldr insert_by_time fs []"

text \<open>Only the flash vector is sorted; RefinedHitsPerFlash keeps its order.\<close>

definition RemoveLateLight ::
  "OpFlash list \<Rightarrow> int list list \<Rightarrow> error + OpFlash list \<times> int list list" where
  "RemoveLateLight FlashVector RefinedHitsPerFlash =
     (if length FlashVector < length RefinedHitsPerFlash then Inl UndefinedBehaviour
      else
        (case MarkFlashesForRemoval
                (take (length FlashVector - length RefinedHitsPerFlash) FlashVector
                   @ sort_flash_by_time
                       (drop (length FlashVector - length RefinedHitsPerFlash) FlashVector))
                (length FlashVector - length RefinedHitsPerFlash)
                (replicate (length RefinedHitsPerFlash) False) of
           Inl e \<Rightarrow> Inl e
         | Inr MarkedForRemoval \<Rightarrow>
             RemoveFlashesFromVectors MarkedForRemoval
               (take (length FlashVector - length RefinedHitsPerFlash) FlashVector
                  @ sort_flash_by_time
                      (drop (length FlashVector - length RefinedHitsPerFlash) FlashVector))
               (length FlashVector - length RefinedHitsPerFlash)
               RefinedHitsPerFlash))"


section \<open>Processing of a frame\<close>

text \<open>The loop over the waveforms of the frame, started with the hit vector of the earlier
  frames and two empty accumulators. The number of bins is an unsigned division by the
  bin width.\<close>

definition CollectHits ::
  "real \<Rightarrow> real \<Rightarrow> int \<Rightarrow> TimeService \<Rightarrow> real list \<Rightarrow> (int \<rightharpoonup> int) \<Rightarrow> nat \<Rightarrow> nat
     \<Rightarrow> Waveform list \<Rightarrow> OpHit list \<Rightarrow> error + OpHit list \<times> Accumulator \<times> Accumulator" where
  "CollectHits HitThreshold FlashThreshold BinWidth ts SPESize ChannelMap frame NOpCh
       OpticalRawDigitFrameVector HitVector =
     (if BinWidth mod 2 ^ 32 = 0 then Inl UndefinedBehaviour
      else foldE (ProcessWaveform HitThreshold FlashThreshold BinWidth ts SPESize ChannelMap
                    frame NOpCh)
                 OpticalRawDigitFrameVector
                 (HitVector, EmptyAccumulator (NBins ts BinWidth),
                  EmptyAccumulator (NBins ts BinWidth)))"

text \<open>The loop that refines every coarse flash into RefinedHitsPerFlash.\<close>

definition RefineAll ::
  "int list list \<Rightarrow> OpHit list \<Rightarrow> real \<Rightarrow> real \<Rightarrow> (error + int list list) option" where
  "RefineAll HitsPerFlash HitVector WidthTolerance FlashThreshold =
     foldEO (\<lambda>HitsThisFlash Refined.
               RefineHitsInFlash HitsThisFlash HitVector Refined WidthTolerance FlashThreshold)
            HitsPerFlash []"

text \<open>The coarse and refined hit sets of the frame: everything ProcessFrame does before it
  builds the flash records.\<close>

definition FrameRefinedHits ::
  "real \<Rightarrow> real \<Rightarrow> OpHit list \<Rightarrow> Accumulator \<Rightarrow> Accumulator \<Rightarrow> nat
     \<Rightarrow> (error + int list list) option" where
  "FrameRefinedHits FlashThreshold WidthTolerance HitVector Acc1 Acc2 NHitsThisFrame =
     (case AssignHitsToFlash (FlashesInAccumulator Acc1) (FlashesInAccumulator Acc2)
             (Binned Acc1) (Binned Acc2) (Contributors Acc1) (Contributors Acc2)
             NHitsThisFrame HitVector [] FlashThreshold of
        Inl e \<Rightarrow> Some (Inl e)
      | Inr HitsPerFlash \<Rightarrow> RefineAll HitsPerFlash HitVector WidthTolerance FlashThreshold)"

definition ProcessFrame ::
  "nat \<Rightarrow> Waveform list \<Rightarrow> OpHit list \<Rightarrow> OpFlash list \<Rightarrow> int list list \<Rightarrow> int
     \<Rightarrow> (int \<rightharpoonup> int) \<Rightarrow> Geometry \<Rightarrow> real \<Rightarrow> real \<Rightarrow> real \<Rightarrow> TimeService \<Rightarrow> real list \<Rightarrow> real
     \<Rightarrow> (error + OpHit list \<times> OpFlash list \<times> int list list) option" where
  "ProcessFrame frame OpticalRawDigitFrameVector HitVector FlashVector AssocList BinWidth
       ChannelMap geom HitThreshold FlashThreshold WidthTolerance ts SPESize TrigCoinc =
     (case CollectHits HitThreshold FlashThreshold BinWidth ts SPESize ChannelMap frame
             (NOpChannels geom) OpticalRawDigitFrameVector HitVector of
        Inl e \<Rightarrow> Some (Inl e)
      | Inr (hv, Acc1, Acc2) \<Rightarrow>
     (case FrameRefinedHits FlashThreshold WidthTolerance hv Acc1 Acc2
             (length hv - length HitVector) of
        None \<Rightarrow> None
      | Some (Inl e) \<Rightarrow> Some (Inl e)
      | Some (Inr RefinedHitsPerFlash) \<Rightarrow>
     (case foldE (\<lambda>HitsPerFlashVec fv.
                    ConstructFlash HitsPerFlashVec hv fv geom (BeamGateFrame ts) frame TrigCoinc)
                 RefinedHitsPerFlash FlashVector of
        Inl e \<Rightarrow> Some (Inl e)
      | Inr fv \<Rightarrow>
     (case RemoveLateLight fv RefinedHitsPerFlash of
        Inl e \<Rightarrow> Some (Inl e)
      | Inr (fv', Refined') \<Rightarrow>
          Some (Inr (hv, fv',
                     AssocList @
                       map (map (\<lambda>HitIndex. HitIndex + int (length HitVector))) Refined'))))))"

text \<open>RunFlashFinder groups the waveforms by frame number and processes the frames in
  ascending order, each on the hits, flashes and associations of the frames before it.
  The key of the map is an \<^verbatim>\<open>unsigned short\<close>: the frame number of a waveform is
  reduced modulo \<open>2 ^ 16\<close>.\<close>

definition RunFlashFinder ::
  "Waveform list \<Rightarrow> OpHit list \<Rightarrow> OpFlash list \<Rightarrow> int list list \<Rightarrow> int
     \<Rightarrow> (int \<rightharpoonup> int) \<Rightarrow> Geometry \<Rightarrow> real \<Rightarrow> real \<Rightarrow> real \<Rightarrow> TimeService \<Rightarrow> real list \<Rightarrow> real
     \<Rightarrow> (error + OpHit list \<times> OpFlash list \<times> int list list) option" where
  "RunFlashFinder OpticalRawDigitVector HitVector FlashVector AssocList BinWidth
       ChannelMap geom HitThreshold FlashThreshold WidthTolerance ts SPESize TrigCoinc =
     foldEO (\<lambda>wfframe s.
               ProcessFrame (fst wfframe) (snd wfframe) (fst s) (fst (snd s)) (snd (snd s))
                 BinWidth ChannelMap geom HitThreshold FlashThreshold WidthTolerance ts SPESize
                 TrigCoinc)
            (foldl (\<lambda>m opdigitchannel.
                      map_update (\<lambda>a b. a < b) (WfFrame opdigitchannel mod 2 ^ 16)
                        (\<lambda>v. v @ [opdigitchannel]) [] m)
                   [] OpticalRawDigitVector)
            (HitVector, FlashVector, AssocList)"

section \<open>Re-gathering the hits of an association entry\<close>

text \<open>The per-channel PE of the hits that an entry of the association table names: each
  hit is looked up in the hit vector and its PE added to the entry of its channel, as
  AddHitContribution does for the hits of a flash.\<close>

definition RegatherPE :: "OpHit list \<Rightarrow> nat \<Rightarrow> int list \<Rightarrow> error + real list" where
  "RegatherPE HitVector NOpCh HitIndices =
     foldE (\<lambda>HitIndex pes.
              case vec_at_int HitVector HitIndex of
                Inl e \<Rightarrow> Inl e
              | Inr h \<Rightarrow>
                  (case vec_at_int pes (OpChannel h) of
                     Inl e \<Rightarrow> Inl e
                   | Inr p \<Rightarrow> Inr (pes[nat (OpChannel h) := p + PE h])))
           HitIndices (replicate NOpCh 0)"


section \<open>Example data\<close>

text \<open>A flash with the given time, time width and PE on a single channel; every other
  field is zero.\<close>

definition example_flash :: "real \<Rightarrow> real \<Rightarrow> real \<Rightarrow> OpFlash" where
  "example_flash t w pe =
     \<lparr>Time = Fin t, TimeWidth = w, AbsTime = Fin t, FlashFrame = 0, PEs = [pe],
      InBeamFrame = False, OnBeamTime = 0, FlashFastToTotal = Fin 0, YCenter = Fin 0,
      YWidth = Fin 0, ZCenter = Fin 0, ZWidth = Fin 0, WireCenters = [], WireWidths = []\<rparr>"


text \<open>A time service with 1000 ticks per frame in which a tick is one time unit and the
  time of a pulse is its tick plus the time slice; a geometry with two channels and no
  wire plane; the identity channel map on the two channels; a waveform with one pulse of
  the given peak on the given channel, peaking at tick \<open>t\<close>.\<close>

definition example_ts :: TimeService where
  "example_ts =
     \<lparr>FrameTicks = 1000, OpticalTick2Time = (\<lambda>t s f. t + real s),
      OpticalTick2BeamTime = (\<lambda>t s f. t + real s), TickPeriod = 1, BeamGateFrame = 0\<rparr>"

definition example_geom :: Geometry where
  "example_geom =
     \<lparr>NOpChannels = 2, Nplanes = 0, OpDetCenter = (\<lambda>c. (0, 0, 0)), NearestWire = (\<lambda>x p. 0)\<rparr>"

definition example_map :: "int \<rightharpoonup> int" where
  "example_map = [0 \<mapsto> 0, 1 \<mapsto> 1]"

definition example_pulse :: "real \<Rightarrow> real \<Rightarrow> pulse_param" where
  "example_pulse p t = \<lparr>peak = p, area = p, t_start = t - 1, t_end = t + 1, t_max = t\<rparr>"

definition example_wf :: "nat \<Rightarrow> int \<Rightarrow> pulse_param list \<Rightarrow> Waveform" where
  "example_wf f c ps = \<lparr>WfFrame = f, ChannelNumber = c, TimeSlice = 0, Pulses = ps\<rparr>"

text \<open>The hit that ConstructHit builds from \<open>example_pulse p t\<close> on channel \<open>c\<close> in frame
  \<open>f\<close> with a single-photoelectron size of 1.\<close>

definition example_hit :: "nat \<Rightarrow> int \<Rightarrow> real \<Rightarrow> real \<Rightarrow> OpHit" where
  "example_hit f c p t =
     \<lparr>OpChannel = c, PeakTime = t, PeakTimeAbs = t, Frame = f, Width = 2, Area = p,
      Amplitude = p, PE = p, FastToTotal = 0\<rparr>"


section \<open>Notions used to state the properties\<close>

text \<open>The number of hits that are not marked as used.\<close>

definition unused_count :: "bool list \<Rightarrow> nat" where
  "unused_count U = length (filter (\<lambda>b. \<not> b) U)"

text \<open>The summed PE of the hits that a list of in-range hit indices names.\<close>

definition PEsum :: "OpHit list \<Rightarrow> int list \<Rightarrow> real" where
  "PEsum HitVector hs = sum_list (map (\<lambda>h. PE (HitVector ! nat h)) hs)"

text \<open>No two lists of a list of lists share an element.\<close>

fun disj_lists :: "'a list list \<Rightarrow> bool" where
  "disj_lists [] = True"
| "disj_lists (x # xs) = ((\<forall>y\<in>set xs. set x \<inter> set y = {}) \<and> disj_lists xs)"

text \<open>The state of the growth of one refined flash, relative to the used flags \<open>U0\<close> at
  the start of the outer iteration: flags are only added, the hits of the group are
  distinct hits of the coarse flash that were not used before and are used now, and the
  accumulated PE is their summed PE.\<close>

definition GrowInv :: "int list \<Rightarrow> OpHit list \<Rightarrow> bool list \<Rightarrow> RefineState \<Rightarrow> bool" where
  "GrowInv ids HitVector U0 st \<longleftrightarrow>
     length (HitsUsed st) = length U0 \<and>
     (\<forall>i<length U0. U0 ! i \<longrightarrow> HitsUsed st ! i) \<and>
     distinct (HitsThisRefinedFlash st) \<and>
     HitsThisRefinedFlash st \<noteq> [] \<and>
     (\<forall>h\<in>set (HitsThisRefinedFlash st).
         0 \<le> h \<and> nat h < length U0 \<and> nat h < length HitVector \<and>
         \<not> U0 ! nat h \<and> HitsUsed st ! nat h \<and> h \<in> set ids) \<and>
     PEAccumulated st = PEsum HitVector (HitsThisRefinedFlash st)"

text \<open>A stored refined flash: distinct in-range hits of the coarse flash whose summed PE
  reaches the flash threshold.\<close>

definition RefinedOK :: "int set \<Rightarrow> OpHit list \<Rightarrow> real \<Rightarrow> int list \<Rightarrow> bool" where
  "RefinedOK ids HitVector FlashThreshold hs \<longleftrightarrow>
     hs \<noteq> [] \<and> distinct hs \<and>
     (\<forall>h\<in>set hs. 0 \<le> h \<and> nat h < length HitVector \<and> h \<in> ids) \<and>
     FlashThreshold \<le> PEsum HitVector hs"

text \<open>The state of the greedy claiming: every stored coarse flash reaches the threshold
  and all its hits are claimed, and no two stored coarse flashes share a hit.\<close>

definition ClaimInv :: "OpHit list \<Rightarrow> real \<Rightarrow> int \<Rightarrow> int list list \<times> int list \<Rightarrow> bool" where
  "ClaimInv HitVector FlashThreshold NHits_prev s \<longleftrightarrow>
     (\<forall>hs\<in>set (fst s).
        (\<exists>pe. SumPE HitVector hs = Inr pe \<and> FlashThreshold \<le> pe) \<and>
        (\<forall>h\<in>set hs. 0 \<le> h - NHits_prev \<and> nat (h - NHits_prev) < length (snd s) \<and>
                      snd s ! nat (h - NHits_prev) \<noteq> - 1)) \<and>
     disj_lists (fst s)"


section \<open>Properties of the late-light filter\<close>

lemma HypPE_Fin:
  "iWidth \<noteq> 0 \<Longrightarrow>
   HypPE (Fin iPE) (Fin iTime) (Fin iWidth) (Fin jTime) (Fin jWidth) =
     Fin (iPE * jWidth / iWidth * exp (- (jTime - iTime) / (16 / 10)))"
  by (simp add: HypPE_def dsub_def)

lemma GetLikelihoodLateLight_Fin:
  assumes "HypPE iPE (Fin iTime) iWidth (Fin jTime) jWidth = Fin h" "0 < h" "iTime \<le> jTime"
  shows "GetLikelihoodLateLight iPE (Fin iTime) iWidth (Fin jPE) (Fin jTime) jWidth =
     Fin ((jPE - h) / sqrt h)"
  using assms by (simp add: GetLikelihoodLateLight_def dsub_def)

lemma significance_antimono:
  fixes h h' jPE :: real
  assumes "0 < h'" "h' < h" "0 \<le> jPE"
  shows "(jPE - h) / sqrt h < (jPE - h') / sqrt h'"
proof -
  have pos: "0 < sqrt h'" "0 < sqrt h" using assms by simp_all
  have lt: "sqrt h' < sqrt h" using assms by simp
  have a: "(jPE - h) / sqrt h = jPE / sqrt h - sqrt h"
    using assms by (simp add: diff_divide_distrib real_div_sqrt)
  have b: "(jPE - h') / sqrt h' = jPE / sqrt h' - sqrt h'"
    using assms by (simp add: diff_divide_distrib real_div_sqrt)
  have "jPE / sqrt h \<le> jPE / sqrt h'"
    using pos lt assms(3) by (simp add: frac_le)
  with lt show ?thesis unfolding a b by linarith
qed

text \<open>
  The formula of GetLikelihoodLateLight in exact arithmetic, that is, with the exact
  exponential and square root and no rounding: with iPE, iWidth and jWidth positive and
  jPE non-negative, a larger time gap \<open>jTime - iTime \<ge> 0\<close> gives a strictly smaller
  hypothetical PE and a strictly larger significance. This is a property of the formula.
  The values that the code computes in double arithmetic do not have it: its
  \<^verbatim>\<open>std::exp\<close> returns 0 for every gap above about 1192, where the hypothetical PE is 0
  whatever the gap and the significance is an infinity or a NaN.
\<close>

lemma gap_monotone_exact_arithmetic:
  assumes "0 < iPE" "0 < iWidth" "0 < jWidth" "0 \<le> jPE"
    and "0 \<le> jTime - iTime" "jTime - iTime < jTime' - iTime'"
  shows "\<exists>h h' s s'.
     HypPE (Fin iPE) (Fin iTime) (Fin iWidth) (Fin jTime) (Fin jWidth) = Fin h \<and>
     HypPE (Fin iPE) (Fin iTime') (Fin iWidth) (Fin jTime') (Fin jWidth) = Fin h' \<and>
     0 < h' \<and> h' < h \<and>
     GetLikelihoodLateLight (Fin iPE) (Fin iTime) (Fin iWidth) (Fin jPE) (Fin jTime) (Fin jWidth) = Fin s \<and>
     GetLikelihoodLateLight (Fin iPE) (Fin iTime') (Fin iWidth) (Fin jPE) (Fin jTime') (Fin jWidth) = Fin s' \<and>
     s < s' \<and> (s' < 3 \<longrightarrow> s < 3)"
proof -
  define c where "c = iPE * jWidth / iWidth"
  define h where "h = c * exp (- (jTime - iTime) / (16 / 10))"
  define h' where "h' = c * exp (- (jTime' - iTime') / (16 / 10))"
  have c: "0 < c" using assms(1-3) by (simp add: c_def)
  have h'pos: "0 < h'" using c by (simp add: h'_def)
  have "exp (- (jTime' - iTime') / (16 / 10)) < exp (- (jTime - iTime) / (16 / 10))"
    using assms(6) by simp
  then have hlt: "h' < h" using c by (simp add: h_def h'_def)
  have hpos: "0 < h" using h'pos hlt by linarith
  have w: "iWidth \<noteq> 0" using assms(2) by simp
  have t: "iTime \<le> jTime" "iTime' \<le> jTime'" using assms(5,6) by linarith+
  have H: "HypPE (Fin iPE) (Fin iTime) (Fin iWidth) (Fin jTime) (Fin jWidth) = Fin h"
    by (simp add: HypPE_Fin [OF w] h_def c_def)
  have H': "HypPE (Fin iPE) (Fin iTime') (Fin iWidth) (Fin jTime') (Fin jWidth) = Fin h'"
    by (simp add: HypPE_Fin [OF w] h'_def c_def)
  have S: "GetLikelihoodLateLight (Fin iPE) (Fin iTime) (Fin iWidth) (Fin jPE) (Fin jTime) (Fin jWidth)
      = Fin ((jPE - h) / sqrt h)"
    by (rule GetLikelihoodLateLight_Fin [OF H hpos t(1)])
  have S': "GetLikelihoodLateLight (Fin iPE) (Fin iTime') (Fin iWidth) (Fin jPE) (Fin jTime') (Fin jWidth)
      = Fin ((jPE - h') / sqrt h')"
    by (rule GetLikelihoodLateLight_Fin [OF H' h'pos t(2)])
  have lt: "(jPE - h) / sqrt h < (jPE - h') / sqrt h'"
    by (rule significance_antimono [OF h'pos hlt assms(4)])
  show ?thesis
    using H H' S S' h'pos hlt lt by force
qed

lemma MarkInner_result:
  assumes "j < length fv" "j - B < length M"
  shows "MarkInner fv B iPE iT iW j M =
     Inr (M[j - B := (M ! (j - B) \<or>
        dless (GetLikelihoodLateLight iPE iT iW (Fin (TotalPE (fv ! j))) (Time (fv ! j))
                 (Fin (TimeWidth (fv ! j)))) (Fin 3))])"
proof (cases "M ! (j - B)")
  case True
  then have "M[j - B := True] = M" by (metis list_update_id)
  then show ?thesis using assms True by (simp add: MarkInner_def vec_at_def)
next
  case False
  then have "M[j - B := False] = M" by (metis list_update_id)
  then show ?thesis using assms False by (simp add: MarkInner_def vec_at_def)
qed

lemma foldE_MarkInner:
  assumes "\<forall>j\<in>set js. B \<le> j \<and> j < length fv" "length M = length fv - B"
  shows "\<exists>M'. foldE (MarkInner fv B iPE iT iW) js M = Inr M' \<and> length M' = length M \<and>
     (\<forall>k<length M. M' ! k = (M ! k \<or> (B + k \<in> set js \<and>
        dless (GetLikelihoodLateLight iPE iT iW (Fin (TotalPE (fv ! (B + k)))) (Time (fv ! (B + k)))
                 (Fin (TimeWidth (fv ! (B + k))))) (Fin 3))))"
  using assms
proof (induction js arbitrary: M)
  case Nil
  then show ?case by simp
next
  case (Cons j js)
  let ?P = "\<lambda>j. dless (GetLikelihoodLateLight iPE iT iW (Fin (TotalPE (fv ! j))) (Time (fv ! j))
                 (Fin (TimeWidth (fv ! j)))) (Fin 3)"
  let ?M1 = "M[j - B := (M ! (j - B) \<or> ?P j)]"
  have j: "B \<le> j" "j < length fv" using Cons.prems(1) by simp_all
  then have jM: "j - B < length M" using Cons.prems(2) by linarith
  have step: "MarkInner fv B iPE iT iW j M = Inr ?M1"
    by (rule MarkInner_result [OF j(2) jM])
  have "\<forall>j\<in>set js. B \<le> j \<and> j < length fv" using Cons.prems(1) by simp
  moreover have "length ?M1 = length fv - B" using Cons.prems(2) by simp
  ultimately obtain M' where M': "foldE (MarkInner fv B iPE iT iW) js ?M1 = Inr M'"
      "length M' = length ?M1"
      "\<forall>k<length ?M1. M' ! k = (?M1 ! k \<or> (B + k \<in> set js \<and> ?P (B + k)))"
    using Cons.IH [of ?M1] by blast
  have "\<forall>k<length M. M' ! k = (M ! k \<or> (B + k \<in> set (j # js) \<and> ?P (B + k)))"
  proof (intro allI impI)
    fix k assume k: "k < length M"
    show "M' ! k = (M ! k \<or> (B + k \<in> set (j # js) \<and> ?P (B + k)))"
    proof (cases "k = j - B")
      case True
      then have "B + k = j" using j by simp
      then show ?thesis using M'(3) k True by auto
    next
      case False
      then have "B + k \<noteq> j" using j by auto
      then show ?thesis using M'(3) k False by auto
    qed
  qed
  then show ?case using step M'(1,2) by simp
qed

lemma MarkOuter_result:
  assumes "B \<le> i" "i < length fv" "length M = length fv - B"
  shows "\<exists>M'. MarkOuter fv B i M = Inr M' \<and> length M' = length M \<and>
     (\<forall>k<length M. M' ! k = (M ! k \<or> (i < B + k \<and> LateLightBelowCut fv i (B + k))))"
proof -
  have "\<forall>j\<in>set [i + 1 ..< length fv]. B \<le> j \<and> j < length fv" using assms(1) by auto
  from foldE_MarkInner [OF this assms(3), of "Fin (TotalPE (fv ! i))" "Time (fv ! i)" "Fin (TimeWidth (fv ! i))"]
  obtain M' where M': "foldE (MarkInner fv B (Fin (TotalPE (fv ! i))) (Time (fv ! i)) (Fin (TimeWidth (fv ! i))))
        [i + 1 ..< length fv] M = Inr M'" "length M' = length M"
     "\<forall>k<length M. M' ! k = (M ! k \<or> (B + k \<in> set [i + 1 ..< length fv] \<and>
        dless (GetLikelihoodLateLight (Fin (TotalPE (fv ! i))) (Time (fv ! i)) (Fin (TimeWidth (fv ! i)))
           (Fin (TotalPE (fv ! (B + k)))) (Time (fv ! (B + k)))
                 (Fin (TimeWidth (fv ! (B + k))))) (Fin 3)))"
    by blast
  have "\<forall>k<length M. M' ! k = (M ! k \<or> (i < B + k \<and> LateLightBelowCut fv i (B + k)))"
    using M'(3) assms(3) by (auto simp: LateLightBelowCut_def)
  then show ?thesis using M'(1,2) assms(2) by (simp add: MarkOuter_def vec_at_def)
qed

lemma foldE_MarkOuter:
  assumes "\<forall>i\<in>set is. B \<le> i \<and> i < length fv" "length M = length fv - B"
  shows "\<exists>M'. foldE (MarkOuter fv B) is M = Inr M' \<and> length M' = length M \<and>
     (\<forall>k<length M. M' ! k = (M ! k \<or> (\<exists>i\<in>set is. i < B + k \<and> LateLightBelowCut fv i (B + k))))"
  using assms
proof (induction "is" arbitrary: M)
  case Nil
  then show ?case by simp
next
  case (Cons i "is")
  have i: "B \<le> i" "i < length fv" using Cons.prems(1) by simp_all
  obtain M1 where M1: "MarkOuter fv B i M = Inr M1" "length M1 = length M"
     "\<forall>k<length M. M1 ! k = (M ! k \<or> (i < B + k \<and> LateLightBelowCut fv i (B + k)))"
    using MarkOuter_result [OF i Cons.prems(2)] by blast
  have "\<forall>i\<in>set is. B \<le> i \<and> i < length fv" using Cons.prems(1) by simp
  moreover have "length M1 = length fv - B" using M1(2) Cons.prems(2) by simp
  ultimately obtain M' where M': "foldE (MarkOuter fv B) is M1 = Inr M'" "length M' = length M1"
     "\<forall>k<length M1. M' ! k = (M1 ! k \<or> (\<exists>i\<in>set is. i < B + k \<and> LateLightBelowCut fv i (B + k)))"
    using Cons.IH [of M1] by blast
  have "\<forall>k<length M. M' ! k = (M ! k \<or> (\<exists>i'\<in>set (i # is). i' < B + k \<and> LateLightBelowCut fv i' (B + k)))"
    using M'(3) M1(2,3) by auto
  then show ?case using M1(1,2) M'(1,2) by simp
qed

lemma MarkFlashesForRemoval_marks:
  assumes "B \<le> length fv" "length M = length fv - B"
  shows "\<exists>M'. MarkFlashesForRemoval fv B M = Inr M' \<and> length M' = length M \<and>
     (\<forall>k<length M. M' ! k = (M ! k \<or> (\<exists>i. B \<le> i \<and> i < B + k \<and> LateLightBelowCut fv i (B + k))))"
proof -
  have "\<forall>i\<in>set [B ..< length fv]. B \<le> i \<and> i < length fv" by simp
  from foldE_MarkOuter [OF this assms(2)]
  obtain M' where M': "foldE (MarkOuter fv B) [B ..< length fv] M = Inr M'" "length M' = length M"
     "\<forall>k<length M. M' ! k = (M ! k \<or> (\<exists>i\<in>set [B ..< length fv]. i < B + k \<and> LateLightBelowCut fv i (B + k)))"
    by blast
  have "\<forall>k<length M. M' ! k = (M ! k \<or> (\<exists>i. B \<le> i \<and> i < B + k \<and> LateLightBelowCut fv i (B + k)))"
  proof (intro allI impI)
    fix k assume k: "k < length M"
    then have "B + k < length fv" using assms by linarith
    then show "M' ! k = (M ! k \<or> (\<exists>i. B \<le> i \<and> i < B + k \<and> LateLightBelowCut fv i (B + k)))"
      using M'(3) k by auto
  qed
  then show ?thesis using M'(1,2) assms(1) by (simp add: MarkFlashesForRemoval_def)
qed


text \<open>
  C8. The marking pass, started as RemoveLateLight starts it (no flash marked), ends without
  an exception and marks the flash at position \<open>j\<close> exactly when some earlier position
  \<open>i\<close> of the frame, marked itself or not, gives a significance below 3. An entry that is
  already marked is left as it is, whatever the parent: the significance is not evaluated
  again for it.
\<close>

theorem MarkFlashesForRemoval_exact:
  assumes "BeginFlash \<le> length FlashVector"
  shows "\<exists>M. MarkFlashesForRemoval FlashVector BeginFlash
               (replicate (length FlashVector - BeginFlash) False) = Inr M \<and>
     length M = length FlashVector - BeginFlash \<and>
     (\<forall>j. BeginFlash \<le> j \<and> j < length FlashVector \<longrightarrow>
        (M ! (j - BeginFlash) \<longleftrightarrow>
           (\<exists>i. BeginFlash \<le> i \<and> i < j \<and> LateLightBelowCut FlashVector i j))) \<and>
     (\<forall>iPE iTime iWidth j M0. j - BeginFlash < length M0 \<and> M0 ! (j - BeginFlash) \<longrightarrow>
        MarkInner FlashVector BeginFlash iPE iTime iWidth j M0 = Inr M0)"
proof -
  let ?M0 = "replicate (length FlashVector - BeginFlash) False"
  have len: "length ?M0 = length FlashVector - BeginFlash" by simp
  obtain M where M: "MarkFlashesForRemoval FlashVector BeginFlash ?M0 = Inr M"
      "length M = length ?M0"
      "\<forall>k<length ?M0. M ! k = (?M0 ! k \<or>
          (\<exists>i. BeginFlash \<le> i \<and> i < BeginFlash + k \<and> LateLightBelowCut FlashVector i (BeginFlash + k)))"
    using MarkFlashesForRemoval_marks [OF assms len] by blast
  have exact: "\<forall>j. BeginFlash \<le> j \<and> j < length FlashVector \<longrightarrow>
        (M ! (j - BeginFlash) \<longleftrightarrow>
           (\<exists>i. BeginFlash \<le> i \<and> i < j \<and> LateLightBelowCut FlashVector i j))"
  proof (intro allI impI)
    fix j assume j: "BeginFlash \<le> j \<and> j < length FlashVector"
    then have k: "j - BeginFlash < length ?M0" and e: "BeginFlash + (j - BeginFlash) = j"
      by (simp_all add: diff_less_mono)
    show "M ! (j - BeginFlash) \<longleftrightarrow>
           (\<exists>i. BeginFlash \<le> i \<and> i < j \<and> LateLightBelowCut FlashVector i j)"
      using M(3) k e by (metis nth_replicate length_replicate)
  qed
  have skip: "\<forall>iPE iTime iWidth j M0. j - BeginFlash < length M0 \<and> M0 ! (j - BeginFlash) \<longrightarrow>
        MarkInner FlashVector BeginFlash iPE iTime iWidth j M0 = Inr M0"
    by (simp add: MarkInner_def vec_at_def)
  show ?thesis using M(1,2) exact skip by auto
qed

theorem MarkFlashesForRemoval_exact_witness:
  "MarkFlashesForRemoval [example_flash 0 1 4, example_flash 0 1 1] 0 (replicate 2 False) =
     Inr [False, True]"
proof -
  let ?fv = "[example_flash 0 1 4, example_flash 0 1 1]"
  have b: "(0::nat) \<le> length ?fv" by simp
  obtain M where M: "MarkFlashesForRemoval ?fv 0 (replicate (length ?fv - 0) False) = Inr M"
    "length M = length ?fv - 0"
    "\<forall>j. 0 \<le> j \<and> j < length ?fv \<longrightarrow>
        (M ! (j - 0) \<longleftrightarrow> (\<exists>i. 0 \<le> i \<and> i < j \<and> LateLightBelowCut ?fv i j))"
    using MarkFlashesForRemoval_exact [OF b] by blast
  have l: "LateLightBelowCut ?fv 0 1"
    by (simp add: LateLightBelowCut_def GetLikelihoodLateLight_def HypPE_def TotalPE_def
        dsub_def example_flash_def)
  have m0: "M ! 0 = False" using M(3) by simp
  have m1: "M ! 1 = True" using M(3) l by auto
  have "length M = 2" using M(2) by simp
  then obtain a b where "M = [a, b]"
    by (auto simp: numeral_2_eq_2 length_Suc_conv)
  with m0 m1 have "M = [False, True]" by simp
  then show ?thesis using M(1) by (simp add: numeral_2_eq_2)
qed

lemma GetLikelihoodLateLight_later_parent:
  "dless jTime iTime \<Longrightarrow> GetLikelihoodLateLight iPE iTime iWidth jPE jTime jWidth = Fin 1000000"
  by (simp add: GetLikelihoodLateLight_def)

text \<open>
  C10. For a parent whose time is strictly greater than the candidate's,
  GetLikelihoodLateLight returns 1e6, which is not below 3. Hence, in whatever order the
  flashes of the frame stand, a flash marked by the marking pass has an earlier position
  whose time is not greater than its own and whose significance is below 3.
\<close>

theorem late_light_never_from_later_parent:
  "(\<forall>iPE iTime iWidth jPE jTime jWidth. dless jTime iTime \<longrightarrow>
       GetLikelihoodLateLight iPE iTime iWidth jPE jTime jWidth = Fin 1000000 \<and>
       \<not> dless (GetLikelihoodLateLight iPE iTime iWidth jPE jTime jWidth) (Fin 3)) \<and>
   (\<forall>i j. dless (Time (FlashVector ! j)) (Time (FlashVector ! i)) \<longrightarrow>
       \<not> LateLightBelowCut FlashVector i j) \<and>
   (\<forall>M j. MarkFlashesForRemoval FlashVector BeginFlash
              (replicate (length FlashVector - BeginFlash) False) = Inr M \<and>
          BeginFlash \<le> j \<and> j < length FlashVector \<and> M ! (j - BeginFlash) \<longrightarrow>
      (\<exists>i. BeginFlash \<le> i \<and> i < j \<and>
           \<not> dless (Time (FlashVector ! j)) (Time (FlashVector ! i)) \<and>
           LateLightBelowCut FlashVector i j))"
proof -
  have a: "\<forall>iPE iTime iWidth jPE jTime jWidth. dless jTime iTime \<longrightarrow>
       GetLikelihoodLateLight iPE iTime iWidth jPE jTime jWidth = Fin 1000000 \<and>
       \<not> dless (GetLikelihoodLateLight iPE iTime iWidth jPE jTime jWidth) (Fin 3)"
    by (simp add: GetLikelihoodLateLight_later_parent)
  have b: "\<forall>i j. dless (Time (FlashVector ! j)) (Time (FlashVector ! i)) \<longrightarrow>
       \<not> LateLightBelowCut FlashVector i j"
    by (simp add: LateLightBelowCut_def GetLikelihoodLateLight_later_parent)
  have c: "\<forall>M j. MarkFlashesForRemoval FlashVector BeginFlash
              (replicate (length FlashVector - BeginFlash) False) = Inr M \<and>
          BeginFlash \<le> j \<and> j < length FlashVector \<and> M ! (j - BeginFlash) \<longrightarrow>
      (\<exists>i. BeginFlash \<le> i \<and> i < j \<and>
           \<not> dless (Time (FlashVector ! j)) (Time (FlashVector ! i)) \<and>
           LateLightBelowCut FlashVector i j)"
  proof (intro allI impI)
    fix M j
    let ?M0 = "replicate (length FlashVector - BeginFlash) False"
    assume h: "MarkFlashesForRemoval FlashVector BeginFlash ?M0 = Inr M \<and>
          BeginFlash \<le> j \<and> j < length FlashVector \<and> M ! (j - BeginFlash)"
    then have B: "BeginFlash \<le> length FlashVector" by simp
    have len: "length ?M0 = length FlashVector - BeginFlash" by simp
    obtain M' where M': "MarkFlashesForRemoval FlashVector BeginFlash ?M0 = Inr M'"
      "\<forall>k<length ?M0. M' ! k = (?M0 ! k \<or>
          (\<exists>i. BeginFlash \<le> i \<and> i < BeginFlash + k \<and> LateLightBelowCut FlashVector i (BeginFlash + k)))"
      using MarkFlashesForRemoval_marks [OF B len] by blast
    have eq: "M' = M" using M'(1) h by simp
    have k: "j - BeginFlash < length ?M0" and e: "BeginFlash + (j - BeginFlash) = j"
      using h by (simp_all add: diff_less_mono)
    have "\<exists>i. BeginFlash \<le> i \<and> i < j \<and> LateLightBelowCut FlashVector i j"
      using M'(2) k e h eq by (metis nth_replicate length_replicate)
    then obtain i where i: "BeginFlash \<le> i" "i < j" "LateLightBelowCut FlashVector i j"
      by blast
    have "\<not> dless (Time (FlashVector ! j)) (Time (FlashVector ! i))"
      using b i(3) by blast
    then show "\<exists>i. BeginFlash \<le> i \<and> i < j \<and>
           \<not> dless (Time (FlashVector ! j)) (Time (FlashVector ! i)) \<and>
           LateLightBelowCut FlashVector i j"
      using i by blast
  qed
  show ?thesis using a b c by blast
qed

lemma MarkFlashesForRemoval_example:
  "MarkFlashesForRemoval [example_flash 0 1 9, example_flash 0 1 2] 0 [False, False] =
     Inr [False, True]"
  by (simp add: MarkFlashesForRemoval_def MarkOuter_def MarkInner_def vec_at_def
      GetLikelihoodLateLight_def HypPE_def TotalPE_def dsub_def example_flash_def)

theorem late_light_never_from_later_parent_witness:
  "\<exists>i. (0::nat) \<le> i \<and> i < 1 \<and>
     \<not> dless (Time (example_flash 0 1 2)) (Time ([example_flash 0 1 9, example_flash 0 1 2] ! i)) \<and>
     LateLightBelowCut [example_flash 0 1 9, example_flash 0 1 2] i 1"
proof -
  let ?fv = "[example_flash 0 1 9, example_flash 0 1 2]"
  have m: "MarkFlashesForRemoval ?fv 0 (replicate (length ?fv - 0) False) = Inr [False, True] \<and>
      (0::nat) \<le> 1 \<and> 1 < length ?fv \<and> [False, True] ! (1 - 0)"
    using MarkFlashesForRemoval_example by (simp add: numeral_2_eq_2)
  note T = late_light_never_from_later_parent [of ?fv 0, THEN conjunct2, THEN conjunct2,
      rule_format, of "[False, True]" 1]
  have "\<exists>i. 0 \<le> i \<and> i < 1 \<and> \<not> dless (Time (?fv ! 1)) (Time (?fv ! i)) \<and>
           LateLightBelowCut ?fv i 1"
    by (rule T [OF m])
  then show ?thesis by simp
qed

section \<open>Rounding to double\<close>

lemma rne_of_int: "rne (of_int k) = k"
  by (simp add: rne_def)

lemma dround_0: "dround 0 = 0"
  by (simp add: dround_def)

lemma dexponent_eq:
  assumes "- 1022 \<le> e" "2 powr of_int e \<le> \<bar>x\<bar>" "\<bar>x\<bar> < 2 powr (of_int e + 1)"
  shows "dexponent x = e"
proof -
  have "0 < \<bar>x\<bar>" using assms(2) powr_gt_zero [of 2 "of_int e"] by linarith
  then have "\<lfloor>log 2 \<bar>x\<bar>\<rfloor> = e"
    using assms(2,3) floor_log_eq_powr_iff [of "\<bar>x\<bar>" 2 e] by simp
  then show ?thesis using assms(1) by (simp add: dexponent_def)
qed

text \<open>The rounding of a number of magnitude in \<open>[2 ^ k, 2 ^ (k + 1))\<close>.\<close>

lemma dround_up:
  assumes "k \<le> 1023" "2 ^ k \<le> \<bar>x\<bar>" "\<bar>x\<bar> < 2 * 2 ^ k"
  shows "dround x = of_int (rne (x * 2 ^ 52 / 2 ^ k)) * 2 ^ k / 2 ^ 52"
proof -
  have e: "dexponent x = int k"
    by (rule dexponent_eq) (use assms in \<open>simp_all add: powr_realpow powr_add\<close>)
  have "(0::real) < 2 ^ k" by simp
  then have "0 < \<bar>x\<bar>" using assms(2) by linarith
  then have x: "x \<noteq> 0" by simp
  have u: "dulp x = 2 ^ k / 2 ^ 52"
    by (simp add: dulp_def e powr_diff powr_realpow)
  show ?thesis using x by (simp add: dround_def u)
qed

text \<open>The rounding of a number of magnitude in \<open>[2 ^ (- k), 2 ^ (1 - k))\<close>.\<close>

lemma dround_down:
  assumes "k \<le> 1022" "1 / 2 ^ k \<le> \<bar>x\<bar>" "\<bar>x\<bar> < 2 / 2 ^ k"
  shows "dround x = of_int (rne (x * 2 ^ (52 + k))) / 2 ^ (52 + k)"
proof -
  have p: "2 powr (- real k) = 1 / 2 ^ k"
    by (simp add: powr_minus powr_realpow inverse_eq_divide)
  have q: "2 powr (real_of_int (- int k) + 1) = 2 / 2 ^ k"
    by (simp add: powr_diff powr_realpow)
  have e: "dexponent x = - int k"
  proof (rule dexponent_eq)
    show "- 1022 \<le> - int k" using assms(1) by simp
    show "2 powr real_of_int (- int k) \<le> \<bar>x\<bar>" using assms(2) p by simp
    show "\<bar>x\<bar> < 2 powr (real_of_int (- int k) + 1)" using assms(3) q by simp
  qed
  have "(0::real) < 1 / 2 ^ k" by simp
  then have "0 < \<bar>x\<bar>" using assms(2) by linarith
  then have x: "x \<noteq> 0" by simp
  have u: "dulp x = 1 / 2 ^ (52 + k)"
    by (simp add: dulp_def e powr_diff powr_realpow powr_minus inverse_eq_divide power_add)
  show ?thesis using x by (simp add: dround_def u)
qed

lemma dexponent_le:
  assumes "x \<noteq> 0" "\<bar>x\<bar> < 2 ^ 53"
  shows "dexponent x \<le> 52"
proof -
  have "log 2 \<bar>x\<bar> < 53"
    using assms log_less_iff [of 2 "\<bar>x\<bar>" 53] by (simp add: powr_realpow)
  then have "\<lfloor>log 2 \<bar>x\<bar>\<rfloor> < 53" by linarith
  then show ?thesis by (simp add: dexponent_def)
qed

text \<open>An integer of magnitude below \<open>2 ^ 53\<close> is a double.\<close>

lemma dround_of_int:
  assumes "\<bar>n\<bar> < 2 ^ 53"
  shows "dround (of_int n) = of_int n"
proof (cases "n = 0")
  case True
  then show ?thesis by (simp add: dround_def)
next
  case False
  define x :: real where "x = of_int n"
  have x: "x \<noteq> 0" using False by (simp add: x_def)
  have "\<bar>x\<bar> < 2 ^ 53" using assms unfolding x_def
    by (metis of_int_abs of_int_less_numeral_power_cancel_iff)
  then have le: "dexponent x \<le> 52" using x by (rule dexponent_le [rotated])
  define k where "k = nat (52 - dexponent x)"
  have "real_of_int (dexponent x) - 52 = - real k" using le by (simp add: k_def)
  then have u: "dulp x = 1 / 2 ^ k"
    by (simp add: dulp_def powr_minus powr_realpow inverse_eq_divide)
  have "x / dulp x = of_int (n * 2 ^ k)" by (simp only: u) (simp add: x_def)
  then have "rne (x / dulp x) = n * 2 ^ k" by (simp only: rne_of_int)
  then have "dround x = of_int (n * 2 ^ k) * (1 / 2 ^ k)"
    using x by (simp only: dround_def u if_False)
  then have "dround x = x" by (simp add: x_def)
  then show ?thesis by (simp add: x_def)
qed

lemma dround_numeral:
  "numeral k < (2::int) ^ 53 \<Longrightarrow> dround (numeral k) = numeral k"
  using dround_of_int [of "numeral k"] by simp

lemma dround_1: "dround 1 = 1"
  using dround_of_int [of 1] by simp

section \<open>Properties of the accumulators\<close>

lemma FillAccumulator_Inr:
  assumes "FillAccumulator i h pe T acc = Inr acc'"
  shows "i < length (Binned acc)" "i < length (Contributors acc)"
    "Binned acc' = (Binned acc)[i := dround (Binned acc ! i + pe)]"
    "Contributors acc' = (Contributors acc)[i := Contributors acc ! i @ [uint_to_int h]]"
    "FlashesInAccumulator acc' =
       (if T \<le> Binned acc' ! i \<and> dround (Binned acc' ! i - pe) < T
        then FlashesInAccumulator acc @ [uint_to_int i] else FlashesInAccumulator acc)"
  using assms by (auto simp: FillAccumulator_def vec_at_def split: if_splits)

text \<open>One call of FillAccumulator, given the rounded sum \<open>s\<close> and the rounded
  difference \<open>d\<close>.\<close>

lemma FillAccumulator_step:
  assumes "i < length (Binned acc)" "i < length (Contributors acc)"
    and "dround (Binned acc ! i + pe) = s" "\<bar>s\<bar> < 2 ^ 1024" "dround (s - pe) = d"
  shows "FillAccumulator i h pe T acc =
     Inr \<lparr>Binned = (Binned acc)[i := s],
          Contributors = (Contributors acc)[i := Contributors acc ! i @ [uint_to_int h]],
          FlashesInAccumulator =
            (if T \<le> s \<and> d < T then FlashesInAccumulator acc @ [uint_to_int i]
             else FlashesInAccumulator acc)\<rparr>"
  using assms by (simp add: FillAccumulator_def vec_at_def)

text \<open>
  C6. FillAccumulator on one bin under a flash threshold of 1, in double arithmetic.
  First run: a hit of PE 1 and a hit of PE 0.4 (the double \<open>3602879701896397 / 2 ^ 53\<close>).
  The first hit brings the bin to 1 and flags it. The second brings it to the double 1.4;
  the difference of 1.4 and 0.4 rounds to \<open>1 - 2 ^ (- 53)\<close>, which is below the
  threshold, and the bin is flagged a second time.
  Second run: hits of PE 0.2, 0.7, 0.1 and 0.2. The sums of the bin are the doubles
  \<open>0.9 - 2 ^ (- 53)\<close>, \<open>1 - 2 ^ (- 53)\<close> and 1.2; the last sum is the first that reaches the
  threshold, the difference of 1.2 and 0.2 rounds to 1, which is not below the threshold,
  and the bin is never flagged.
\<close>

theorem FillAccumulator_rounded_difference:
  "foldE (\<lambda>f. FillAccumulator (fst f) (fst (snd f)) (snd (snd f)) 1)
      [(0, 0, 1), (0, 1, 3602879701896397 / 2 ^ 53)] (EmptyAccumulator 1)
    = Inr \<lparr>Binned = [3152519739159347 / 2 ^ 51], Contributors = [[0, 1]],
           FlashesInAccumulator = [0, 0]\<rparr> \<and>
   foldE (\<lambda>f. FillAccumulator (fst f) (fst (snd f)) (snd (snd f)) 1)
      [(0, 0, 3602879701896397 / 2 ^ 54), (0, 1, 3152519739159347 / 2 ^ 52),
       (0, 2, 3602879701896397 / 2 ^ 55), (0, 3, 3602879701896397 / 2 ^ 54)]
      (EmptyAccumulator 1)
    = Inr \<lparr>Binned = [5404319552844595 / 2 ^ 52], Contributors = [[0, 1, 2, 3]],
           FlashesInAccumulator = []\<rparr>"
proof -
  let ?e = "\<lparr>Binned = [0::real], Contributors = [[]], FlashesInAccumulator = []\<rparr>"
  have e: "EmptyAccumulator 1 = ?e" by (simp add: EmptyAccumulator_def)
  have a1: "FillAccumulator 0 0 1 1 ?e
      = Inr \<lparr>Binned = [1], Contributors = [[0]], FlashesInAccumulator = [0]\<rparr>"
    using FillAccumulator_step [of 0 ?e 1 1 0 0 1]
    by (simp add: dround_1 dround_0 uint_to_int_def)
  have r1: "dround (1 + 3602879701896397 / 2 ^ 53) = 3152519739159347 / 2 ^ 51"
    using dround_up [of 0 "1 + 3602879701896397 / 2 ^ 53"] by (simp add: rne_def)
  have r2: "dround (3152519739159347 / 2 ^ 51 - 3602879701896397 / 2 ^ 53)
      = 9007199254740991 / 2 ^ 53"
    using dround_down [of 1 "3152519739159347 / 2 ^ 51 - 3602879701896397 / 2 ^ 53"]
    by (simp add: rne_def)
  have a2: "FillAccumulator 0 1 (3602879701896397 / 2 ^ 53) 1
        \<lparr>Binned = [1], Contributors = [[0]], FlashesInAccumulator = [0]\<rparr>
      = Inr \<lparr>Binned = [3152519739159347 / 2 ^ 51], Contributors = [[0, 1]],
             FlashesInAccumulator = [0, 0]\<rparr>"
    using FillAccumulator_step [of 0
        "\<lparr>Binned = [1], Contributors = [[0]], FlashesInAccumulator = [0]\<rparr>"
        "3602879701896397 / 2 ^ 53" "3152519739159347 / 2 ^ 51" "9007199254740991 / 2 ^ 53"
        1 1] r1 r2
    by (simp add: uint_to_int_def)
  have A: "foldE (\<lambda>f. FillAccumulator (fst f) (fst (snd f)) (snd (snd f)) 1)
      [(0, 0, 1), (0, 1, 3602879701896397 / 2 ^ 53)] (EmptyAccumulator 1)
    = Inr \<lparr>Binned = [3152519739159347 / 2 ^ 51], Contributors = [[0, 1]],
           FlashesInAccumulator = [0, 0]\<rparr>"
    by (simp only: e foldE.simps fst_conv snd_conv a1 a2 sum.case)
  have s1: "dround (3602879701896397 / 2 ^ 54) = 3602879701896397 / 2 ^ 54"
    using dround_down [of 3 "3602879701896397 / 2 ^ 54"] by (simp add: rne_def)
  have b1: "FillAccumulator 0 0 (3602879701896397 / 2 ^ 54) 1 ?e
      = Inr \<lparr>Binned = [3602879701896397 / 2 ^ 54], Contributors = [[0]],
             FlashesInAccumulator = []\<rparr>"
    using FillAccumulator_step [of 0 ?e "3602879701896397 / 2 ^ 54"
        "3602879701896397 / 2 ^ 54" 0 0 1] s1
    by (simp add: dround_0 uint_to_int_def)
  have s2: "dround (3602879701896397 / 2 ^ 54 + 3152519739159347 / 2 ^ 52)
      = 2026619832316723 / 2 ^ 51"
    using dround_down [of 1 "3602879701896397 / 2 ^ 54 + 3152519739159347 / 2 ^ 52"]
    by (simp add: rne_def)
  have d2: "dround (2026619832316723 / 2 ^ 51 - 3152519739159347 / 2 ^ 52)
      = 3602879701896396 / 2 ^ 54"
    using dround_down [of 3 "2026619832316723 / 2 ^ 51 - 3152519739159347 / 2 ^ 52"]
    by (simp add: rne_def)
  have b2: "FillAccumulator 0 1 (3152519739159347 / 2 ^ 52) 1
        \<lparr>Binned = [3602879701896397 / 2 ^ 54], Contributors = [[0]],
         FlashesInAccumulator = []\<rparr>
      = Inr \<lparr>Binned = [2026619832316723 / 2 ^ 51], Contributors = [[0, 1]],
             FlashesInAccumulator = []\<rparr>"
    using FillAccumulator_step [of 0
        "\<lparr>Binned = [3602879701896397 / 2 ^ 54], Contributors = [[0]],
          FlashesInAccumulator = []\<rparr>"
        "3152519739159347 / 2 ^ 52" "2026619832316723 / 2 ^ 51" "3602879701896396 / 2 ^ 54"
        1 1] s2 d2
    by (simp add: uint_to_int_def)
  have s3: "dround (2026619832316723 / 2 ^ 51 + 3602879701896397 / 2 ^ 55)
      = 9007199254740991 / 2 ^ 53"
    using dround_down [of 1 "2026619832316723 / 2 ^ 51 + 3602879701896397 / 2 ^ 55"]
    by (simp add: rne_def)
  have d3: "dround (9007199254740991 / 2 ^ 53 - 3602879701896397 / 2 ^ 55)
      = 2026619832316723 / 2 ^ 51"
    using dround_down [of 1 "9007199254740991 / 2 ^ 53 - 3602879701896397 / 2 ^ 55"]
    by (simp add: rne_def)
  have b3: "FillAccumulator 0 2 (3602879701896397 / 2 ^ 55) 1
        \<lparr>Binned = [2026619832316723 / 2 ^ 51], Contributors = [[0, 1]],
         FlashesInAccumulator = []\<rparr>
      = Inr \<lparr>Binned = [9007199254740991 / 2 ^ 53], Contributors = [[0, 1, 2]],
             FlashesInAccumulator = []\<rparr>"
    using FillAccumulator_step [of 0
        "\<lparr>Binned = [2026619832316723 / 2 ^ 51], Contributors = [[0, 1]],
          FlashesInAccumulator = []\<rparr>"
        "3602879701896397 / 2 ^ 55" "9007199254740991 / 2 ^ 53" "2026619832316723 / 2 ^ 51"
        2 1] s3 d3
    by (simp add: uint_to_int_def)
  have s4: "dround (9007199254740991 / 2 ^ 53 + 3602879701896397 / 2 ^ 54)
      = 5404319552844595 / 2 ^ 52"
    using dround_up [of 0 "9007199254740991 / 2 ^ 53 + 3602879701896397 / 2 ^ 54"]
    by (simp add: rne_def)
  have d4: "dround (5404319552844595 / 2 ^ 52 - 3602879701896397 / 2 ^ 54) = 1"
    using dround_down [of 1 "5404319552844595 / 2 ^ 52 - 3602879701896397 / 2 ^ 54"]
    by (simp add: rne_def)
  have b4: "FillAccumulator 0 3 (3602879701896397 / 2 ^ 54) 1
        \<lparr>Binned = [9007199254740991 / 2 ^ 53], Contributors = [[0, 1, 2]],
         FlashesInAccumulator = []\<rparr>
      = Inr \<lparr>Binned = [5404319552844595 / 2 ^ 52], Contributors = [[0, 1, 2, 3]],
             FlashesInAccumulator = []\<rparr>"
    using FillAccumulator_step [of 0
        "\<lparr>Binned = [9007199254740991 / 2 ^ 53], Contributors = [[0, 1, 2]],
          FlashesInAccumulator = []\<rparr>"
        "3602879701896397 / 2 ^ 54" "5404319552844595 / 2 ^ 52" 1 3 1] s4 d4
    by (simp add: uint_to_int_def)
  have B: "foldE (\<lambda>f. FillAccumulator (fst f) (fst (snd f)) (snd (snd f)) 1)
      [(0, 0, 3602879701896397 / 2 ^ 54), (0, 1, 3152519739159347 / 2 ^ 52),
       (0, 2, 3602879701896397 / 2 ^ 55), (0, 3, 3602879701896397 / 2 ^ 54)]
      (EmptyAccumulator 1)
    = Inr \<lparr>Binned = [5404319552844595 / 2 ^ 52], Contributors = [[0, 1, 2, 3]],
           FlashesInAccumulator = []\<rparr>"
    by (simp only: e foldE.simps fst_conv snd_conv b1 b2 b3 b4 sum.case)
  from A B show ?thesis by (rule conjI)
qed

section \<open>Properties of the flash refiner\<close>

lemma vec_at_int_Inr: "vec_at_int xs i = Inr x \<longleftrightarrow> 0 \<le> i \<and> nat i < length xs \<and> x = xs ! nat i"
  by (auto simp: vec_at_int_def)

lemma vec_at_int_Inl: "vec_at_int xs i = Inl e \<longleftrightarrow> \<not> (0 \<le> i \<and> nat i < length xs) \<and> e = OutOfRange"
  by (auto simp: vec_at_int_def)

lemma PEsum_append: "PEsum hv (xs @ ys) = PEsum hv xs + PEsum hv ys"
  by (simp add: PEsum_def)

lemma PEsum_single: "PEsum hv [h] = PE (hv ! nat h)"
  by (simp add: PEsum_def)

lemma FindSeedHit_cases:
  assumes "FindSeedHit ids' hv st0 = Inr st1" "set ids' \<subseteq> set ids"
  shows "st1 = st0 \<or> GrowInv ids hv (HitsUsed st0) st1"
  using assms
proof (induction ids')
  case Nil
  then show ?case by simp
next
  case (Cons HitID ids')
  from Cons.prems(1) obtain used where u: "vec_at_int (HitsUsed st0) HitID = Inr used"
    by (auto split: sum.splits)
  show ?case
  proof (cases used)
    case True
    then have "FindSeedHit ids' hv st0 = Inr st1" using Cons.prems(1) u by simp
    then show ?thesis using Cons.IH Cons.prems(2) by simp
  next
    case False
    from Cons.prems(1) u False obtain h where h: "vec_at_int hv HitID = Inr h"
      by (auto split: sum.splits)
    have st1: "st1 = \<lparr>HitsUsed = (HitsUsed st0)[nat HitID := True],
                         HitsThisRefinedFlash = [HitID],
                         PEAccumulated = PE h,
                         FlashMaxTime = PeakTime h + 0.5 * Width h,
                         FlashMinTime = PeakTime h - 0.5 * Width h\<rparr>"
      using Cons.prems(1) u False h by simp
    have r: "0 \<le> HitID" "nat HitID < length (HitsUsed st0)" "\<not> HitsUsed st0 ! nat HitID"
      using u False by (simp_all add: vec_at_int_Inr)
    have r2: "nat HitID < length hv" "h = hv ! nat HitID"
      using h by (simp_all add: vec_at_int_Inr)
    have "HitID \<in> set ids" using Cons.prems(2) by simp
    then have "GrowInv ids hv (HitsUsed st0) st1"
      using r r2 by (simp add: GrowInv_def st1 PEsum_single nth_list_update)
    then show ?thesis by simp
  qed
qed

lemma AddHitToFlash_inv:
  assumes "GrowInv ids hv u0 st" "HitID \<in> set ids" "vec_at_int hv HitID = Inr h"
    and "AddHitToFlash HitID h wt st = Inr st'"
  shows "GrowInv ids hv u0 st' \<and>
     (\<exists>added. HitsThisRefinedFlash st' = HitsThisRefinedFlash st @ added)"
proof -
  from assms(4) obtain used where u: "vec_at_int (HitsUsed st) HitID = Inr used"
    by (auto simp: AddHitToFlash_def split: sum.splits)
  show ?thesis
  proof (cases "st' = st")
    case True
    then show ?thesis using assms(1) by simp
  next
    case False
    then have nu: "\<not> used" using assms(4) u by (auto simp: AddHitToFlash_def)
    have st': "st' = \<lparr>HitsUsed = (HitsUsed st)[nat HitID := True],
                    HitsThisRefinedFlash = HitsThisRefinedFlash st @ [HitID],
                    PEAccumulated = PEAccumulated st + PE h,
                    FlashMaxTime = max (FlashMaxTime st) (PeakTime h + 0.5 * Width h),
                    FlashMinTime = min (FlashMinTime st) (PeakTime h - 0.5 * Width h)\<rparr>"
      using assms(4) u nu False by (auto simp: AddHitToFlash_def split: if_splits)
    have r: "0 \<le> HitID" "nat HitID < length (HitsUsed st)" "\<not> HitsUsed st ! nat HitID"
      using u nu by (simp_all add: vec_at_int_Inr)
    have r2: "nat HitID < length hv" "h = hv ! nat HitID"
      using assms(3) by (simp_all add: vec_at_int_Inr)
    note G = assms(1) [unfolded GrowInv_def]
    have len: "length (HitsUsed st) = length u0" using G by simp
    have notin: "HitID \<notin> set (HitsThisRefinedFlash st)"
    proof
      assume "HitID \<in> set (HitsThisRefinedFlash st)"
      then have "HitsUsed st ! nat HitID" using G by blast
      then show False using r(3) by simp
    qed
    have nu0: "\<not> u0 ! nat HitID"
    proof
      assume "u0 ! nat HitID"
      then have "HitsUsed st ! nat HitID" using G r(2) len by simp
      then show False using r(3) by simp
    qed
    have "GrowInv ids hv u0 st'"
      unfolding GrowInv_def st'
      using G r r2 notin nu0 assms(2) len
      by (auto simp: PEsum_append PEsum_single nth_list_update)
    then show ?thesis by (simp add: st')
  qed
qed

lemma GrowScan_inv_aux:
  assumes "GrowInv ids hv u0 st" "set ids' \<subseteq> set ids"
    and "foldE (\<lambda>HitID s. case vec_at_int hv HitID of Inl e \<Rightarrow> Inl e
                          | Inr h \<Rightarrow> AddHitToFlash HitID h wt s) ids' st = Inr st'"
  shows "GrowInv ids hv u0 st' \<and>
     (\<exists>added. HitsThisRefinedFlash st' = HitsThisRefinedFlash st @ added)"
  using assms
proof (induction ids' arbitrary: st)
  case Nil
  then show ?case by simp
next
  case (Cons HitID ids')
  from Cons.prems(3) obtain h st1 where
    h: "vec_at_int hv HitID = Inr h" and
    a: "AddHitToFlash HitID h wt st = Inr st1" and
    r: "foldE (\<lambda>HitID s. case vec_at_int hv HitID of Inl e \<Rightarrow> Inl e
                          | Inr h \<Rightarrow> AddHitToFlash HitID h wt s) ids' st1 = Inr st'"
    by (auto split: sum.splits)
  have "HitID \<in> set ids" using Cons.prems(2) by simp
  from AddHitToFlash_inv [OF Cons.prems(1) this h a]
  obtain added1 where G1: "GrowInv ids hv u0 st1"
    and e1: "HitsThisRefinedFlash st1 = HitsThisRefinedFlash st @ added1" by blast
  have "set ids' \<subseteq> set ids" using Cons.prems(2) by simp
  from Cons.IH [OF G1 this r]
  obtain added2 where G2: "GrowInv ids hv u0 st'"
    and e2: "HitsThisRefinedFlash st' = HitsThisRefinedFlash st1 @ added2" by blast
  show ?case using G2 e1 e2 by simp
qed

lemma GrowScan_inv:
  assumes "GrowInv ids hv u0 st" "GrowScan ids hv wt st = Inr st'"
  shows "GrowInv ids hv u0 st'"
    and "length (HitsThisRefinedFlash st) \<le> length (HitsThisRefinedFlash st')"
  using GrowScan_inv_aux [OF assms(1) subset_refl, of wt st'] assms(2)
  by (auto simp: GrowScan_def)

lemma GrowInv_length:
  assumes "GrowInv ids hv u0 st"
  shows "length (HitsThisRefinedFlash st) \<le> length u0"
proof -
  note G = assms [unfolded GrowInv_def]
  let ?g = "HitsThisRefinedFlash st"
  have nn: "\<forall>h\<in>set ?g. 0 \<le> h" using G by blast
  have "inj_on nat (set ?g)"
  proof (rule inj_onI)
    fix x y assume a: "x \<in> set ?g" "y \<in> set ?g" "nat x = nat y"
    then have "0 \<le> x" "0 \<le> y" using nn by blast+
    with a(3) show "x = y" by (simp add: eq_nat_nat_iff)
  qed
  then have "distinct (map nat ?g)" using G by (simp add: distinct_map)
  then have "length ?g = card (set (map nat ?g))"
    by (metis distinct_card length_map)
  also have "set (map nat ?g) \<subseteq> {..<length u0}" using G by auto
  then have "card (set (map nat ?g)) \<le> card {..<length u0}"
    by (intro card_mono) simp_all
  finally show ?thesis by simp
qed

lemma GrowLoop_terminates:
  assumes "GrowInv ids hv u0 st"
  shows "\<exists>r. GrowLoop ids hv wt N st = Some r \<and> (\<forall>st'. r = Inr st' \<longrightarrow> GrowInv ids hv u0 st')"
  using assms
proof (induction "2 * (length u0 - length (HitsThisRefinedFlash st)) +
                   (if N < length (HitsThisRefinedFlash st) then 1 else 0 :: nat)"
       arbitrary: N st rule: less_induct)
  case less
  show ?case
  proof (cases "N < length (HitsThisRefinedFlash st)")
    case False
    then have "GrowLoop ids hv wt N st = Some (Inr st)"
      by (subst GrowLoop.simps) simp
    then show ?thesis using less.prems by simp
  next
    case True
    show ?thesis
    proof (cases "GrowScan ids hv wt st")
      case (Inl e)
      then have "GrowLoop ids hv wt N st = Some (Inl e)"
        using True by (subst GrowLoop.simps) simp
      then show ?thesis by simp
    next
      case (Inr st')
      note S = GrowScan_inv [OF less.prems Inr]
      have b: "length (HitsThisRefinedFlash st') \<le> length u0"
        by (rule GrowInv_length [OF S(1)])
      have dec: "2 * (length u0 - length (HitsThisRefinedFlash st')) +
                   (if length (HitsThisRefinedFlash st) < length (HitsThisRefinedFlash st')
                    then 1 else 0 :: nat)
                 < 2 * (length u0 - length (HitsThisRefinedFlash st)) +
                   (if N < length (HitsThisRefinedFlash st) then 1 else 0 :: nat)"
        using True S(2) b by (auto split: if_splits)
      from less.hyps [OF dec S(1)]
      obtain r where r: "GrowLoop ids hv wt (length (HitsThisRefinedFlash st)) st' = Some r"
        "\<forall>st''. r = Inr st'' \<longrightarrow> GrowInv ids hv u0 st''" by blast
      have "GrowLoop ids hv wt N st = Some r"
        using True Inr r(1) by (subst GrowLoop.simps) simp
      then show ?thesis using r(2) by simp
    qed
  qed
qed

lemma disj_lists_snoc:
  "disj_lists (xs @ [x]) \<longleftrightarrow> disj_lists xs \<and> (\<forall>y\<in>set xs. set y \<inter> set x = {})"
  by (induction xs) auto

lemma disj_lists_append:
  "disj_lists (xs @ ys) \<longleftrightarrow>
     disj_lists xs \<and> disj_lists ys \<and> (\<forall>x\<in>set xs. \<forall>y\<in>set ys. set x \<inter> set y = {})"
  by (induction xs) auto

lemma unused_count_le:
  "length U' = length U \<Longrightarrow> \<forall>i<length U. U ! i \<longrightarrow> U' ! i \<Longrightarrow> unused_count U' \<le> unused_count U"
proof (induction U' U rule: list_induct2)
  case Nil
  then show ?case by simp
next
  case (Cons x xs y ys)
  have "\<forall>i<length ys. ys ! i \<longrightarrow> xs ! i" using Cons.prems by auto
  then have "unused_count xs \<le> unused_count ys" by (rule Cons.IH)
  moreover have "y \<longrightarrow> x" using Cons.prems by auto
  ultimately show ?case by (auto simp: unused_count_def)
qed

lemma unused_count_less:
  "length U' = length U \<Longrightarrow> \<forall>i<length U. U ! i \<longrightarrow> U' ! i \<Longrightarrow> k < length U \<Longrightarrow>
   \<not> U ! k \<Longrightarrow> U' ! k \<Longrightarrow> unused_count U' < unused_count U"
proof (induction U' U arbitrary: k rule: list_induct2)
  case Nil
  then show ?case by simp
next
  case (Cons x xs y ys)
  have mono: "\<forall>i<length ys. ys ! i \<longrightarrow> xs ! i" using Cons.prems(1) by auto
  have hd: "y \<longrightarrow> x" using Cons.prems(1) by auto
  show ?case
  proof (cases k)
    case 0
    then have "\<not> y" "x" using Cons.prems by simp_all
    moreover have "unused_count xs \<le> unused_count ys"
      using unused_count_le [OF Cons.hyps mono] .
    ultimately show ?thesis by (simp add: unused_count_def)
  next
    case (Suc k')
    then have "unused_count xs < unused_count ys"
      using Cons.IH [OF mono, of k'] Cons.prems by simp
    then show ?thesis using hd by (auto simp: unused_count_def)
  qed
qed

lemma release_loop:
  assumes "\<forall>i\<in>set is. i < length g" "\<forall>h\<in>set g. 0 \<le> h \<and> nat h < length U"
  shows "\<exists>U'. foldE (\<lambda>i u. case vec_at_int u (g ! i) of
                              Inl e \<Rightarrow> Inl e
                            | Inr x \<Rightarrow> Inr (u[nat (g ! i) := False])) is U = Inr U' \<and>
     length U' = length U \<and>
     (\<forall>k<length U. U' ! k = (U ! k \<and> k \<notin> (\<lambda>i. nat (g ! i)) ` set is))"
  using assms
proof (induction "is" arbitrary: U)
  case Nil
  then show ?case by simp
next
  case (Cons i "is")
  have gi: "0 \<le> g ! i" "nat (g ! i) < length U" using Cons.prems by simp_all
  let ?U1 = "U[nat (g ! i) := False]"
  have "\<forall>i\<in>set is. i < length g" using Cons.prems(1) by simp
  moreover have "\<forall>h\<in>set g. 0 \<le> h \<and> nat h < length ?U1" using Cons.prems(2) by simp
  ultimately obtain U' where U': "foldE (\<lambda>i u. case vec_at_int u (g ! i) of
                              Inl e \<Rightarrow> Inl e
                            | Inr x \<Rightarrow> Inr (u[nat (g ! i) := False])) is ?U1 = Inr U'"
     "length U' = length ?U1"
     "\<forall>k<length ?U1. U' ! k = (?U1 ! k \<and> k \<notin> (\<lambda>i. nat (g ! i)) ` set is)"
    using Cons.IH [of ?U1] by blast
  have "\<forall>k<length U. U' ! k = (U ! k \<and> k \<notin> (\<lambda>i. nat (g ! i)) ` set (i # is))"
    using U'(3) gi by (auto simp: nth_list_update)
  then show ?case using U'(1,2) gi by (simp add: vec_at_int_def)
qed

lemma CheckAndStoreFlash_inv:
  assumes "GrowInv ids hv u0 st"
  shows "\<exists>R' U'. CheckAndStoreFlash R (HitsThisRefinedFlash st) (PEAccumulated st) T (HitsUsed st)
        = Inr (R', U') \<and>
     length U' = length u0 \<and> (\<forall>i<length u0. u0 ! i \<longrightarrow> U' ! i) \<and>
     (\<exists>k<length u0. \<not> u0 ! k \<and> U' ! k) \<and>
     ((R' = R @ [HitsThisRefinedFlash st] \<and> T \<le> PEsum hv (HitsThisRefinedFlash st) \<and>
       U' = HitsUsed st) \<or> R' = R)"
proof -
  note G = assms [unfolded GrowInv_def]
  let ?g = "HitsThisRefinedFlash st"
  have g0: "?g ! 0 \<in> set ?g" using G by simp
  then have seed: "nat (?g ! 0) < length u0" "\<not> u0 ! nat (?g ! 0)" "HitsUsed st ! nat (?g ! 0)"
    using G by blast+
  have keep: "\<exists>k<length u0. \<not> u0 ! k \<and> HitsUsed st ! k" using seed by blast
  show ?thesis
  proof (cases "T \<le> PEAccumulated st")
    case True
    then show ?thesis using G keep by (simp add: CheckAndStoreFlash_def)
  next
    case False
    show ?thesis
    proof (cases "length ?g = 1")
      case True
      then show ?thesis using False G keep by (simp add: CheckAndStoreFlash_def)
    next
      case ne: False
      have a: "\<forall>i\<in>set [1 ..< length ?g]. i < length ?g" by simp
      have b: "\<forall>h\<in>set ?g. 0 \<le> h \<and> nat h < length (HitsUsed st)" using G by simp
      from release_loop [OF a b]
      obtain U' where U': "foldE (\<lambda>i u. case vec_at_int u (?g ! i) of
                              Inl e \<Rightarrow> Inl e
                            | Inr x \<Rightarrow> Inr (u[nat (?g ! i) := False])) [1 ..< length ?g]
                            (HitsUsed st) = Inr U'"
        "length U' = length (HitsUsed st)"
        "\<forall>k<length (HitsUsed st). U' ! k =
            (HitsUsed st ! k \<and> k \<notin> (\<lambda>i. nat (?g ! i)) ` set [1 ..< length ?g])"
        by blast
      have res: "CheckAndStoreFlash R ?g (PEAccumulated st) T (HitsUsed st) = Inr (R, U')"
        using False ne U'(1) by (simp add: CheckAndStoreFlash_def)
      have len: "length U' = length u0" using U'(2) G by simp
      have mono: "\<forall>i<length u0. u0 ! i \<longrightarrow> U' ! i"
      proof (intro allI impI)
        fix i assume i: "i < length u0" "u0 ! i"
        have "i \<notin> (\<lambda>i. nat (?g ! i)) ` set [1 ..< length ?g]"
        proof
          assume "i \<in> (\<lambda>i. nat (?g ! i)) ` set [1 ..< length ?g]"
          then obtain j where j: "j < length ?g" "i = nat (?g ! j)" by auto
          then have "?g ! j \<in> set ?g" by simp
          then have "\<not> u0 ! nat (?g ! j)" using G by blast
          then show False using i(2) j(2) by simp
        qed
        moreover have "HitsUsed st ! i" using G i by simp
        ultimately show "U' ! i" using U'(3) i(1) G by simp
      qed
      have "nat (?g ! 0) \<notin> (\<lambda>i. nat (?g ! i)) ` set [1 ..< length ?g]"
      proof
        assume "nat (?g ! 0) \<in> (\<lambda>i. nat (?g ! i)) ` set [1 ..< length ?g]"
        then obtain j where j: "1 \<le> j" "j < length ?g" "nat (?g ! 0) = nat (?g ! j)" by auto
        then have "?g ! j \<in> set ?g" by simp
        then have "0 \<le> ?g ! j" "0 \<le> ?g ! 0" using G g0 by blast+
        then have "?g ! 0 = ?g ! j" using j(3) by (simp add: eq_nat_nat_iff)
        then have "0 = j" using G j(2) by (simp add: nth_eq_iff_index_eq)
        then show False using j(1) by simp
      qed
      then have "U' ! nat (?g ! 0)" using U'(3) seed G by simp
      then have "\<exists>k<length u0. \<not> u0 ! k \<and> U' ! k" using seed by blast
      then show ?thesis using res len mono by simp
    qed
  qed
qed

lemma RefineLoop_terminates:
  assumes "\<forall>hs\<in>set Rnew. RefinedOK (set ids) hv T hs \<and> (\<forall>h\<in>set hs. nat h < length U \<and> U ! nat h)"
    and "disj_lists Rnew"
  shows "\<exists>r. RefineLoop ids hv wt T U (R0 @ Rnew) = Some r \<and>
     (\<forall>R'. r = Inr R' \<longrightarrow>
        (\<exists>Rnew'. R' = R0 @ Rnew' \<and> (\<forall>hs\<in>set Rnew'. RefinedOK (set ids) hv T hs) \<and>
                 disj_lists Rnew'))"
  using assms
proof (induction "unused_count U" arbitrary: U Rnew rule: less_induct)
  case less
  let ?st0 = "\<lparr>HitsUsed = U, HitsThisRefinedFlash = [], PEAccumulated = 0,
              FlashMaxTime = 0, FlashMinTime = 0\<rparr>"
  show ?case
  proof (cases "FindSeedHit ids hv ?st0")
    case (Inl e)
    then have "RefineLoop ids hv wt T U (R0 @ Rnew) = Some (Inl e)"
      by (subst RefineLoop.simps) simp
    then show ?thesis by simp
  next
    case (Inr st1)
    from FindSeedHit_cases [OF Inr subset_refl]
    have "st1 = ?st0 \<or> GrowInv ids hv U st1" by simp
    then show ?thesis
    proof
      assume "st1 = ?st0"
      then have "RefineLoop ids hv wt T U (R0 @ Rnew) = Some (Inr (R0 @ Rnew))"
        using Inr by (subst RefineLoop.simps) simp
      then show ?thesis using less.prems by auto
    next
      assume G1: "GrowInv ids hv U st1"
      then have ne1: "length (HitsThisRefinedFlash st1) \<noteq> 0" by (simp add: GrowInv_def)
      from GrowLoop_terminates [OF G1, of wt 0]
      obtain r where r: "GrowLoop ids hv wt 0 st1 = Some r"
        "\<forall>st'. r = Inr st' \<longrightarrow> GrowInv ids hv U st'" by blast
      show ?thesis
      proof (cases r)
        case (Inl e)
        then have "RefineLoop ids hv wt T U (R0 @ Rnew) = Some (Inl e)"
          using Inr ne1 r(1) by (subst RefineLoop.simps) simp
        then show ?thesis by simp
      next
        case (Inr st2)
        then have G2: "GrowInv ids hv U st2" using r(2) by simp
        note G = G2 [unfolded GrowInv_def]
        let ?g = "HitsThisRefinedFlash st2"
        from CheckAndStoreFlash_inv [OF G2, of "R0 @ Rnew" T]
        obtain R' U' where C:
          "CheckAndStoreFlash (R0 @ Rnew) ?g (PEAccumulated st2) T (HitsUsed st2) = Inr (R', U')"
          "length U' = length U" "\<forall>i<length U. U ! i \<longrightarrow> U' ! i"
          "\<exists>k<length U. \<not> U ! k \<and> U' ! k"
          "(R' = (R0 @ Rnew) @ [?g] \<and> T \<le> PEsum hv ?g \<and> U' = HitsUsed st2) \<or> R' = R0 @ Rnew"
          by blast
        have dec: "unused_count U' < unused_count U"
          using C(2,3,4) unused_count_less by blast
        have step: "RefineLoop ids hv wt T U (R0 @ Rnew) = RefineLoop ids hv wt T U' R'"
          using \<open>FindSeedHit ids hv ?st0 = Inr st1\<close> ne1 r(1) Inr C(1)
          by (subst RefineLoop.simps) simp
        have old: "\<forall>hs\<in>set Rnew. RefinedOK (set ids) hv T hs \<and>
              (\<forall>h\<in>set hs. nat h < length U' \<and> U' ! nat h)"
          using less.prems(1) C(2,3) by auto
        from C(5) show ?thesis
        proof
          assume acc: "R' = (R0 @ Rnew) @ [?g] \<and> T \<le> PEsum hv ?g \<and> U' = HitsUsed st2"
          have gok: "RefinedOK (set ids) hv T ?g" using G acc by (simp add: RefinedOK_def)
          have gused: "\<forall>h\<in>set ?g. nat h < length U' \<and> U' ! nat h" using G acc by simp
          have dj: "\<forall>y\<in>set Rnew. set y \<inter> set ?g = {}"
          proof
            fix y assume y: "y \<in> set Rnew"
            show "set y \<inter> set ?g = {}"
            proof (rule ccontr)
              assume "set y \<inter> set ?g \<noteq> {}"
              then obtain h where h: "h \<in> set y" "h \<in> set ?g" by blast
              then have "U ! nat h" using less.prems(1) y by blast
              moreover have "\<not> U ! nat h" using G h(2) by blast
              ultimately show False by simp
            qed
          qed
          have p1: "\<forall>hs\<in>set (Rnew @ [?g]). RefinedOK (set ids) hv T hs \<and>
              (\<forall>h\<in>set hs. nat h < length U' \<and> U' ! nat h)"
            using old gok gused by auto
          have p2: "disj_lists (Rnew @ [?g])"
            using less.prems(2) dj by (simp add: disj_lists_snoc)
          from less.hyps [OF dec p1 p2]
          show ?thesis using step acc by simp
        next
          assume "R' = R0 @ Rnew"
          with less.hyps [OF dec old less.prems(2)] show ?thesis using step by simp
        qed
      qed
    qed
  qed
qed

lemma map_update_ids:
  "set (concat (map snd (map_update before k (\<lambda>v. v @ [x]) [] m))) =
     insert x (set (concat (map snd m)))"
proof (induction m)
  case Nil
  then show ?case by simp
next
  case (Cons p m)
  obtain k' v where p: "p = (k', v)" by (cases p)
  show ?case
  proof (cases "before k k'")
    case True
    then show ?thesis by (simp add: p)
  next
    case False
    show ?thesis
    proof (cases "before k' k")
      case True
      then show ?thesis using False Cons.IH by (simp add: p)
    next
      case nb: False
      then show ?thesis using False by (auto simp: p)
    qed
  qed
qed

lemma FillHitsBySize_aux:
  "foldE (\<lambda>HitID m. case vec_at_int hv HitID of
                          Inl e \<Rightarrow> Inl e
                        | Inr h \<Rightarrow>
                            Inr (map_update (\<lambda>a b. a > b) (PE h) (\<lambda>v. v @ [HitID]) [] m))
           hs m = Inr m' \<Longrightarrow>
   set (concat (map snd m')) = set (concat (map snd m)) \<union> set hs"
proof (induction hs arbitrary: m)
  case Nil
  then show ?case by simp
next
  case (Cons HitID hs)
  from Cons.prems obtain h where h: "vec_at_int hv HitID = Inr h"
    and r: "foldE (\<lambda>HitID m. case vec_at_int hv HitID of
                          Inl e \<Rightarrow> Inl e
                        | Inr h \<Rightarrow>
                            Inr (map_update (\<lambda>a b. a > b) (PE h) (\<lambda>v. v @ [HitID]) [] m))
           hs (map_update (\<lambda>a b. a > b) (PE h) (\<lambda>v. v @ [HitID]) [] m) = Inr m'"
    by (auto split: sum.splits)
  from Cons.IH [OF r] show ?case
    using map_update_ids [of "\<lambda>a b. a > b" "PE h" HitID m] by simp
qed

lemma FillHitsBySize_ids:
  "FillHitsBySize hv hs = Inr m \<Longrightarrow> set (concat (map snd m)) = set hs"
  using FillHitsBySize_aux [of hv hs "[]" m] by (simp add: FillHitsBySize_def)

lemma RefineHitsInFlash_result:
  "\<exists>r. RefineHitsInFlash hs hv R0 wt T = Some r \<and>
     (\<forall>R'. r = Inr R' \<longrightarrow>
        (\<exists>Rnew. R' = R0 @ Rnew \<and> (\<forall>g\<in>set Rnew. RefinedOK (set hs) hv T g) \<and> disj_lists Rnew))"
proof (cases "FillHitsBySize hv hs")
  case (Inl e)
  then show ?thesis by (simp add: RefineHitsInFlash_def)
next
  case (Inr m)
  let ?ids = "concat (map snd m)"
  have ids: "set ?ids = set hs" by (rule FillHitsBySize_ids [OF Inr])
  have a: "\<forall>g\<in>set []. RefinedOK (set ?ids) hv T g \<and>
      (\<forall>h\<in>set g. nat h < length (replicate (length hv) False) \<and>
                  replicate (length hv) False ! nat h)" by simp
  have b: "disj_lists ([] :: int list list)" by simp
  from RefineLoop_terminates [OF a b, of wt R0]
  show ?thesis using Inr ids by (simp add: RefineHitsInFlash_def)
qed

text \<open>
  C7. RefineHitsInFlash returns, with a list of refined flashes or with an exception of
  \<^verbatim>\<open>at\<close>, for every coarse flash, hit vector, tolerance and threshold; its outer loop
  returns from every state of the used flags and of the refined list.
\<close>

theorem RefineHitsInFlash_terminates:
  "(\<exists>r. RefineHitsInFlash HitsThisFlash HitVector RefinedHitsPerFlash WidthTolerance
          FlashThreshold = Some r) \<and>
   (\<forall>ids Used Refined.
      \<exists>r. RefineLoop ids HitVector WidthTolerance FlashThreshold Used Refined = Some r)"
proof
  show "\<exists>r. RefineHitsInFlash HitsThisFlash HitVector RefinedHitsPerFlash WidthTolerance
          FlashThreshold = Some r"
    using RefineHitsInFlash_result [of HitsThisFlash HitVector RefinedHitsPerFlash
        WidthTolerance FlashThreshold] by blast
  show "\<forall>ids Used Refined.
      \<exists>r. RefineLoop ids HitVector WidthTolerance FlashThreshold Used Refined = Some r"
  proof (intro allI)
    fix ids Used Refined
    have a: "\<forall>g\<in>set []. RefinedOK (set ids) HitVector FlashThreshold g \<and>
      (\<forall>h\<in>set g. nat h < length Used \<and> Used ! nat h)" by simp
    have b: "disj_lists ([] :: int list list)" by simp
    from RefineLoop_terminates [OF a b, of WidthTolerance Refined]
    show "\<exists>r. RefineLoop ids HitVector WidthTolerance FlashThreshold Used Refined = Some r"
      by auto
  qed
qed

lemma SumPE_aux:
  "foldE (\<lambda>Hit pe. case vec_at_int hv Hit of Inl e \<Rightarrow> Inl e | Inr h \<Rightarrow> Inr (pe + PE h)) hs a
     = Inr pe \<longleftrightarrow> (\<forall>h\<in>set hs. 0 \<le> h \<and> nat h < length hv) \<and> pe = a + PEsum hv hs"
proof (induction hs arbitrary: a)
  case Nil
  then show ?case by (auto simp: PEsum_def)
next
  case (Cons h hs)
  show ?case
  proof (cases "0 \<le> h \<and> nat h < length hv")
    case True
    then have "vec_at_int hv h = Inr (hv ! nat h)" by (simp add: vec_at_int_def)
    then show ?thesis using Cons.IH [of "a + PE (hv ! nat h)"] True
      by (simp add: PEsum_def add.assoc)
  next
    case False
    then have "vec_at_int hv h = Inl OutOfRange" by (simp add: vec_at_int_def)
    then show ?thesis using False by auto
  qed
qed

lemma SumPE_iff:
  "SumPE hv hs = Inr pe \<longleftrightarrow> (\<forall>h\<in>set hs. 0 \<le> h \<and> nat h < length hv) \<and> pe = PEsum hv hs"
  using SumPE_aux [of hv hs 0 pe] by (simp add: SumPE_def)

lemma RefinedOK_SumPE:
  "RefinedOK ids hv T g \<Longrightarrow> \<exists>pe. SumPE hv g = Inr pe \<and> T \<le> pe"
  by (auto simp: RefinedOK_def SumPE_iff)

lemma RefinedOK_mono: "RefinedOK A hv T g \<Longrightarrow> A \<subseteq> B \<Longrightarrow> RefinedOK B hv T g"
  by (auto simp: RefinedOK_def)

lemma RefinedOK_subset: "RefinedOK A hv T g \<Longrightarrow> set g \<subseteq> A"
  by (auto simp: RefinedOK_def)

lemma RefineAll_threshold:
  assumes "\<forall>g\<in>set R. \<exists>pe. SumPE hv g = Inr pe \<and> T \<le> pe"
  shows "\<exists>r. foldEO (\<lambda>c R. RefineHitsInFlash c hv R wt T) cs R = Some r \<and>
     (\<forall>R'. r = Inr R' \<longrightarrow> (\<forall>g\<in>set R'. \<exists>pe. SumPE hv g = Inr pe \<and> T \<le> pe))"
  using assms
proof (induction cs arbitrary: R)
  case Nil
  then show ?case by simp
next
  case (Cons c cs)
  from RefineHitsInFlash_result [of c hv R wt T]
  obtain r1 where r1: "RefineHitsInFlash c hv R wt T = Some r1"
    "\<forall>R'. r1 = Inr R' \<longrightarrow>
        (\<exists>Rnew. R' = R @ Rnew \<and> (\<forall>g\<in>set Rnew. RefinedOK (set c) hv T g) \<and> disj_lists Rnew)"
    by blast
  show ?case
  proof (cases r1)
    case (Inl e)
    then show ?thesis using r1(1) by simp
  next
    case (Inr R1)
    then obtain Rnew where Rn: "R1 = R @ Rnew" "\<forall>g\<in>set Rnew. RefinedOK (set c) hv T g"
      using r1(2) by blast
    have "\<forall>g\<in>set R1. \<exists>pe. SumPE hv g = Inr pe \<and> T \<le> pe"
      using Cons.prems Rn RefinedOK_SumPE by auto
    from Cons.IH [OF this] show ?thesis using r1(1) Inr by simp
  qed
qed

lemma RefineAll_disjoint:
  assumes "disj_lists cs" "\<forall>g\<in>set R. set g \<subseteq> D" "disj_lists R" "\<forall>c\<in>set cs. D \<inter> set c = {}"
    and "foldEO (\<lambda>c R. RefineHitsInFlash c hv R wt T) cs R = Some (Inr R')"
  shows "disj_lists R'"
  using assms
proof (induction cs arbitrary: R D)
  case Nil
  then show ?case by simp
next
  case (Cons c cs)
  from RefineHitsInFlash_result [of c hv R wt T]
  obtain r1 where r1: "RefineHitsInFlash c hv R wt T = Some r1"
    "\<forall>R'. r1 = Inr R' \<longrightarrow>
        (\<exists>Rnew. R' = R @ Rnew \<and> (\<forall>g\<in>set Rnew. RefinedOK (set c) hv T g) \<and> disj_lists Rnew)"
    by blast
  from Cons.prems(5) r1(1) obtain R1 where R1: "r1 = Inr R1"
    and rest: "foldEO (\<lambda>c R. RefineHitsInFlash c hv R wt T) cs R1 = Some (Inr R')"
    by (cases r1) auto
  from r1(2) R1 obtain Rnew where Rn: "R1 = R @ Rnew"
    "\<forall>g\<in>set Rnew. RefinedOK (set c) hv T g" "disj_lists Rnew" by blast
  have sub: "\<forall>g\<in>set Rnew. set g \<subseteq> set c" using Rn(2) RefinedOK_subset by blast
  have Dc: "D \<inter> set c = {}" using Cons.prems(4) by simp
  have cross: "\<forall>x\<in>set R. \<forall>y\<in>set Rnew. set x \<inter> set y = {}"
  proof (intro ballI)
    fix x y assume "x \<in> set R" "y \<in> set Rnew"
    then have "set x \<subseteq> D" "set y \<subseteq> set c" using Cons.prems(2) sub by blast+
    then show "set x \<inter> set y = {}" using Dc by blast
  qed
  have p1: "disj_lists cs" using Cons.prems(1) by simp
  have p2: "\<forall>g\<in>set R1. set g \<subseteq> D \<union> set c" using Cons.prems(2) sub Rn(1) by auto
  have p3: "disj_lists R1" using Cons.prems(3) Rn(1,3) cross by (simp add: disj_lists_append)
  have p4: "\<forall>c'\<in>set cs. (D \<union> set c) \<inter> set c' = {}"
    using Cons.prems(1,4) by auto
  show ?case by (rule Cons.IH [OF p1 p2 p3 p4 rest])
qed

section \<open>Properties of the flash assigner\<close>

lemma foldE_preserves:
  assumes "\<And>x s s'. P s \<Longrightarrow> f x s = Inr s' \<Longrightarrow> P s'"
    and "P s" "foldE f xs s = Inr s'"
  shows "P s'"
  using assms
proof (induction xs arbitrary: s)
  case Nil
  then show ?case by simp
next
  case (Cons x xs)
  from Cons.prems(3) obtain s1 where s1: "f x s = Inr s1" and r: "foldE f xs s1 = Inr s'"
    by (auto split: sum.splits)
  have "P s1" using Cons.prems(1) [of s x s1] Cons.prems(2) s1 by simp
  then show ?case using Cons.IH [of s1] Cons.prems(1) r by blast
qed

lemma FillHits_aux:
  assumes "foldE (\<lambda>HitIndex hs.
                   case vec_at_int cl (HitIndex - N) of
                     Inl e \<Rightarrow> Inl e
                   | Inr claimed \<Rightarrow> if claimed = - 1 then Inr (hs @ [HitIndex]) else Inr hs)
                c hs0 = Inr hs"
    and "\<forall>h\<in>set hs0. 0 \<le> h - N \<and> nat (h - N) < length cl \<and> cl ! nat (h - N) = - 1"
  shows "\<forall>h\<in>set hs. 0 \<le> h - N \<and> nat (h - N) < length cl \<and> cl ! nat (h - N) = - 1"
proof (rule foldE_preserves [where P = "\<lambda>hs. \<forall>h\<in>set hs. 0 \<le> h - N \<and> nat (h - N) < length cl \<and>
      cl ! nat (h - N) = - 1", OF _ assms(2) assms(1)])
  fix x s s'
  assume "\<forall>h\<in>set s. 0 \<le> h - N \<and> nat (h - N) < length cl \<and> cl ! nat (h - N) = - 1"
    and "(case vec_at_int cl (x - N) of Inl e \<Rightarrow> Inl e
          | Inr claimed \<Rightarrow> if claimed = - 1 then Inr (s @ [x]) else Inr s) = Inr s'"
  then show "\<forall>h\<in>set s'. 0 \<le> h - N \<and> nat (h - N) < length cl \<and> cl ! nat (h - N) = - 1"
    by (auto simp: vec_at_int_def split: if_splits)
qed

lemma FillHitsThisFlash_unclaimed:
  assumes "FillHitsThisFlash C Bin N cl [] = Inr hs"
  shows "\<forall>h\<in>set hs. 0 \<le> h - N \<and> nat (h - N) < length cl \<and> cl ! nat (h - N) = - 1"
proof -
  from assms obtain c where "foldE (\<lambda>HitIndex hs.
                   case vec_at_int cl (HitIndex - N) of
                     Inl e \<Rightarrow> Inl e
                   | Inr claimed \<Rightarrow> if claimed = - 1 then Inr (hs @ [HitIndex]) else Inr hs)
                c [] = Inr hs"
    by (auto simp: FillHitsThisFlash_def split: sum.splits)
  from FillHits_aux [OF this] show ?thesis by simp
qed

lemma claim_loop:
  assumes "foldE (\<lambda>Hit cl. case vec_at_int cl (Hit - N) of
                             Inl e \<Rightarrow> Inl e
                           | Inr claimed \<Rightarrow>
                               if claimed = - 1 then Inr (cl[nat (Hit - N) := v]) else Inr cl)
                 hs cl = Inr cl'" "v \<noteq> - 1"
  shows "length cl' = length cl \<and> (\<forall>i<length cl. cl ! i \<noteq> - 1 \<longrightarrow> cl' ! i \<noteq> - 1) \<and>
     (\<forall>h\<in>set hs. 0 \<le> h - N \<and> nat (h - N) < length cl \<and> cl' ! nat (h - N) \<noteq> - 1)"
  using assms(1)
proof (induction hs arbitrary: cl)
  case Nil
  then show ?case by simp
next
  case (Cons h hs)
  from Cons.prems obtain claimed where c: "vec_at_int cl (h - N) = Inr claimed"
    by (auto split: sum.splits)
  then have r: "0 \<le> h - N" "nat (h - N) < length cl" "claimed = cl ! nat (h - N)"
    by (simp_all add: vec_at_int_Inr)
  let ?cl1 = "if claimed = - 1 then cl[nat (h - N) := v] else cl"
  have rest: "foldE (\<lambda>Hit cl. case vec_at_int cl (Hit - N) of
                             Inl e \<Rightarrow> Inl e
                           | Inr claimed \<Rightarrow>
                               if claimed = - 1 then Inr (cl[nat (Hit - N) := v]) else Inr cl)
                 hs ?cl1 = Inr cl'"
    using Cons.prems c by (auto split: if_splits)
  note IH = Cons.IH [OF rest]
  have l1: "length ?cl1 = length cl" by simp
  have m1: "\<forall>i<length cl. cl ! i \<noteq> - 1 \<longrightarrow> ?cl1 ! i \<noteq> - 1"
    using assms(2) r by (auto simp: nth_list_update)
  have h1: "?cl1 ! nat (h - N) \<noteq> - 1"
    using r assms(2) by auto
  show ?case using IH l1 m1 h1 r by auto
qed

lemma ClaimHits_inv:
  assumes "ClaimInv hv T N (HPF, cl)"
    and "\<forall>h\<in>set hs. 0 \<le> h - N \<and> nat (h - N) < length cl \<and> cl ! nat (h - N) = - 1"
    and "ClaimHits hv hs T HPF N cl = Inr s'"
  shows "ClaimInv hv T N s'"
proof -
  from assms(3) obtain pe where pe: "SumPE hv hs = Inr pe"
    by (auto simp: ClaimHits_def split: sum.splits)
  show ?thesis
  proof (cases "pe < T")
    case True
    then show ?thesis using assms(1,3) pe by (simp add: ClaimHits_def)
  next
    case False
    let ?v = "int (length (HPF @ [hs])) - 1"
    from assms(3) pe False obtain cl' where
      loop: "foldE (\<lambda>Hit cl. case vec_at_int cl (Hit - N) of
                             Inl e \<Rightarrow> Inl e
                           | Inr claimed \<Rightarrow>
                               if claimed = - 1 then Inr (cl[nat (Hit - N) := ?v]) else Inr cl)
                 hs cl = Inr cl'" and s': "s' = (HPF @ [hs], cl')"
      by (auto simp: ClaimHits_def split: sum.splits)
    have v: "?v \<noteq> - 1" by simp
    note L = claim_loop [OF loop v]
    note I = assms(1) [unfolded ClaimInv_def, simplified]
    have old: "\<forall>g\<in>set HPF. (\<exists>pe. SumPE hv g = Inr pe \<and> T \<le> pe) \<and>
        (\<forall>h\<in>set g. 0 \<le> h - N \<and> nat (h - N) < length cl' \<and> cl' ! nat (h - N) \<noteq> - 1)"
      using I L by auto
    have new: "(\<exists>pe. SumPE hv hs = Inr pe \<and> T \<le> pe) \<and>
        (\<forall>h\<in>set hs. 0 \<le> h - N \<and> nat (h - N) < length cl' \<and> cl' ! nat (h - N) \<noteq> - 1)"
      using pe False L by auto
    have dj: "\<forall>g\<in>set HPF. set g \<inter> set hs = {}"
    proof
      fix g assume g: "g \<in> set HPF"
      show "set g \<inter> set hs = {}"
      proof (rule ccontr)
        assume "set g \<inter> set hs \<noteq> {}"
        then obtain h where h: "h \<in> set g" "h \<in> set hs" by blast
        then have "cl ! nat (h - N) \<noteq> - 1" using I g by blast
        moreover have "cl ! nat (h - N) = - 1" using assms(2) h(2) by blast
        ultimately show False by simp
      qed
    qed
    have "disj_lists (HPF @ [hs])" using I dj by (simp add: disj_lists_snoc)
    then show ?thesis using old new by (auto simp: ClaimInv_def s')
  qed
qed

lemma ClaimBin_inv:
  assumes "ClaimInv hv T N s" "ClaimBin hv C1 C2 T N acc bin s = Inr s'"
  shows "ClaimInv hv T N s'"
proof -
  obtain HPF cl where s: "s = (HPF, cl)" by (cases s)
  from assms(2) obtain hs where
    f: "(if acc = 1 then FillHitsThisFlash C1 bin N cl []
         else if acc = 2 then FillHitsThisFlash C2 bin N cl [] else Inr []) = Inr hs"
    and c: "ClaimHits hv hs T HPF N cl = Inr s'"
    by (auto simp: ClaimBin_def s split: sum.splits)
  have "\<forall>h\<in>set hs. 0 \<le> h - N \<and> nat (h - N) < length cl \<and> cl ! nat (h - N) = - 1"
    using f FillHitsThisFlash_unclaimed by (auto split: if_splits)
  from ClaimHits_inv [OF assms(1) [unfolded s] this c] show ?thesis .
qed

lemma AssignHitsToFlash_inv:
  assumes "AssignHitsToFlash F1 F2 B1 B2 C1 C2 NHits hv [] T = Inr HPF"
  shows "disj_lists HPF" and "\<forall>hs\<in>set HPF. \<exists>pe. SumPE hv hs = Inr pe \<and> T \<le> pe"
proof -
  let ?N = "int (length hv) - int NHits"
  from assms obtain m1 where m1: "FillFlashesBySizeMap F1 B1 1 [] = Inr m1"
    by (cases "FillFlashesBySizeMap F1 B1 1 []") (simp_all add: AssignHitsToFlash_def)
  from assms m1 obtain m where m: "FillFlashesBySizeMap F2 B2 2 m1 = Inr m"
    by (cases "FillFlashesBySizeMap F2 B2 2 m1") (simp_all add: AssignHitsToFlash_def)
  let ?loop = "foldE (\<lambda>itFlash.
                    foldE (\<lambda>itAcc. foldE (ClaimBin hv C1 C2 T ?N (fst itAcc)) (snd itAcc))
                          (snd itFlash))
                 m ([], replicate NHits (- 1))"
  from assms m1 m obtain s where s: "?loop = Inr s" "HPF = fst s"
    by (cases ?loop) (simp_all add: AssignHitsToFlash_def)
  obtain cl' where loop: "?loop = Inr (HPF, cl')" using s by (cases s) simp
  have init: "ClaimInv hv T ?N ([], replicate NHits (- 1))" by (simp add: ClaimInv_def)
  have bins: "\<And>a bs s s'. ClaimInv hv T ?N s \<Longrightarrow> foldE (ClaimBin hv C1 C2 T ?N a) bs s = Inr s'
      \<Longrightarrow> ClaimInv hv T ?N s'"
    by (rule foldE_preserves [where P = "ClaimInv hv T ?N"]) (auto intro: ClaimBin_inv)
  have accs: "\<And>as s s'. ClaimInv hv T ?N s \<Longrightarrow>
      foldE (\<lambda>itAcc. foldE (ClaimBin hv C1 C2 T ?N (fst itAcc)) (snd itAcc)) as s = Inr s'
      \<Longrightarrow> ClaimInv hv T ?N s'"
    by (rule foldE_preserves [where P = "ClaimInv hv T ?N"]) (auto intro: bins)
  have "ClaimInv hv T ?N (HPF, cl')"
    by (rule foldE_preserves [where P = "ClaimInv hv T ?N", OF _ init loop]) (auto intro: accs)
  then show "disj_lists HPF" and "\<forall>hs\<in>set HPF. \<exists>pe. SumPE hv hs = Inr pe \<and> T \<le> pe"
    by (auto simp: ClaimInv_def)
qed

section \<open>Properties of the processing of a frame\<close>

lemma disj_lists_nth:
  "disj_lists xs \<Longrightarrow> i < j \<Longrightarrow> j < length xs \<Longrightarrow> set (xs ! i) \<inter> set (xs ! j) = {}"
proof (induction xs arbitrary: i j)
  case Nil
  then show ?case by simp
next
  case (Cons x xs)
  show ?case
  proof (cases i)
    case 0
    then obtain j' where j': "j = Suc j'" "j' < length xs" using Cons.prems by (cases j) auto
    then have "xs ! j' \<in> set xs" by simp
    then show ?thesis using Cons.prems(1) 0 j' by simp
  next
    case (Suc i')
    then obtain j' where j': "j = Suc j'" "j' < length xs" "i' < j'"
      using Cons.prems by (cases j) auto
    then show ?thesis using Cons.IH [of i' j'] Cons.prems(1) Suc by simp
  qed
qed

lemma disj_lists_erase:
  assumes "disj_lists xs"
  shows "disj_lists (take i xs @ drop (Suc i) xs)"
proof (cases "i < length xs")
  case True
  then have "xs = take i xs @ xs ! i # drop (Suc i) xs" by (rule id_take_nth_drop)
  then have "disj_lists (take i xs @ xs ! i # drop (Suc i) xs)" using assms by simp
  then show ?thesis by (simp add: disj_lists_append)
next
  case False
  then show ?thesis using assms by simp
qed

lemma disj_lists_map:
  assumes "inj f" "disj_lists xs"
  shows "disj_lists (map (map f) xs)"
  using assms(2)
proof (induction xs)
  case Nil
  then show ?case by simp
next
  case (Cons x xs)
  have "\<forall>y\<in>set xs. f ` set x \<inter> f ` set y = {}"
  proof
    fix y assume "y \<in> set xs"
    then have "set x \<inter> set y = {}" using Cons.prems by simp
    then show "f ` set x \<inter> f ` set y = {}"
      using assms(1) by (metis image_Int image_empty)
  qed
  then show ?case using Cons by simp
qed

lemma length_insert_by_time: "length (insert_by_time f fs) = Suc (length fs)"
  by (induction fs) simp_all

lemma length_sort_flash_by_time: "length (sort_flash_by_time fs) = length fs"
  by (induction fs) (simp_all add: sort_flash_by_time_def length_insert_by_time)

lemma RemoveFlashesFromVectors_result:
  assumes "RemoveFlashesFromVectors M fv B R = Inr (fv', R')" "length fv = B + length R"
  shows "set R' \<subseteq> set R" "disj_lists R \<longrightarrow> disj_lists R'" "length fv' = B + length R'"
proof -
  let ?P = "\<lambda>s. set (snd s) \<subseteq> set R \<and> (disj_lists R \<longrightarrow> disj_lists (snd s)) \<and>
      length (fst s) = B + length (snd s)"
  have step: "\<And>i s s'. ?P s \<Longrightarrow>
      (case vec_at M i of
         Inl e \<Rightarrow> Inl e
       | Inr marked \<Rightarrow>
           if marked
           then (if i < length (snd s) \<and> B + i < length (fst s)
                 then Inr (take (B + i) (fst s) @ drop (Suc (B + i)) (fst s),
                           take i (snd s) @ drop (Suc i) (snd s))
                 else Inl UndefinedBehaviour)
           else Inr s) = Inr s' \<Longrightarrow> ?P s'"
  proof -
    fix i s s'
    assume P: "?P s" and e: "(case vec_at M i of
         Inl e \<Rightarrow> Inl e
       | Inr marked \<Rightarrow>
           if marked
           then (if i < length (snd s) \<and> B + i < length (fst s)
                 then Inr (take (B + i) (fst s) @ drop (Suc (B + i)) (fst s),
                           take i (snd s) @ drop (Suc i) (snd s))
                 else Inl UndefinedBehaviour)
           else Inr s) = Inr s'"
    show "?P s'"
    proof (cases "s' = s")
      case True
      then show ?thesis using P by simp
    next
      case False
      then have s': "s' = (take (B + i) (fst s) @ drop (Suc (B + i)) (fst s),
                           take i (snd s) @ drop (Suc i) (snd s))"
        and i: "i < length (snd s)" "B + i < length (fst s)"
        using e by (auto split: sum.splits if_splits)
      have a: "set (snd s') \<subseteq> set R"
        using P by (auto simp: s' dest: in_set_takeD in_set_dropD)
      have b: "disj_lists R \<longrightarrow> disj_lists (snd s')"
        using P by (simp add: s' disj_lists_erase)
      have c: "length (fst s') = B + length (snd s')"
        using P i by (simp add: s')
      show ?thesis using a b c by simp
    qed
  qed
  have init: "?P (fv, R)" using assms(2) by simp
  have "?P (fv', R')"
    by (rule foldE_preserves [where P = ?P, OF step init
          assms(1) [unfolded RemoveFlashesFromVectors_def]])
  then show "set R' \<subseteq> set R" "disj_lists R \<longrightarrow> disj_lists R'" "length fv' = B + length R'"
    by simp_all
qed

lemma RemoveLateLight_result:
  assumes "RemoveLateLight fv R = Inr (fv', R')"
  shows "set R' \<subseteq> set R" "disj_lists R \<longrightarrow> disj_lists R'"
    "length fv' = (length fv - length R) + length R'"
proof -
  let ?B = "length fv - length R"
  let ?fv = "take ?B fv @ sort_flash_by_time (drop ?B fv)"
  from assms have le: "length R \<le> length fv"
    by (auto simp: RemoveLateLight_def split: if_splits)
  from assms le obtain M where
    rm: "RemoveFlashesFromVectors M ?fv ?B R = Inr (fv', R')"
    by (auto simp: RemoveLateLight_def split: sum.splits if_splits)
  have len: "length ?fv = ?B + length R"
    using le by (simp add: length_sort_flash_by_time)
  from RemoveFlashesFromVectors_result [OF rm len]
  show "set R' \<subseteq> set R" "disj_lists R \<longrightarrow> disj_lists R'"
    "length fv' = (length fv - length R) + length R'" by simp_all
qed

lemma ConstructFlash_length:
  "ConstructFlash hs hv fv geom tf fr tc = Inr fv' \<Longrightarrow> length fv' = Suc (length fv)"
  by (auto simp: ConstructFlash_def split: sum.splits)

lemma foldE_ConstructFlash_length:
  "foldE (\<lambda>hs fv. ConstructFlash hs hv fv geom tf fr tc) R fv = Inr fv' \<Longrightarrow>
   length fv' = length fv + length R"
proof (induction R arbitrary: fv)
  case Nil
  then show ?case by simp
next
  case (Cons hs R)
  from Cons.prems obtain fv1 where a: "ConstructFlash hs hv fv geom tf fr tc = Inr fv1"
    and r: "foldE (\<lambda>hs fv. ConstructFlash hs hv fv geom tf fr tc) R fv1 = Inr fv'"
    by (auto split: sum.splits)
  show ?case using Cons.IH [OF r] ConstructFlash_length [OF a] by simp
qed

lemma FrameRefinedHits_result:
  assumes "FrameRefinedHits T wt hv A1 A2 N = Some (Inr Refined)"
  shows "disj_lists Refined" "\<forall>g\<in>set Refined. \<exists>pe. SumPE hv g = Inr pe \<and> T \<le> pe"
proof -
  from assms obtain HPF where
    a: "AssignHitsToFlash (FlashesInAccumulator A1) (FlashesInAccumulator A2) (Binned A1)
          (Binned A2) (Contributors A1) (Contributors A2) N hv [] T = Inr HPF"
    and r: "RefineAll HPF hv wt T = Some (Inr Refined)"
    by (auto simp: FrameRefinedHits_def split: sum.splits)
  note A = AssignHitsToFlash_inv [OF a]
  have r': "foldEO (\<lambda>c R. RefineHitsInFlash c hv R wt T) HPF [] = Some (Inr Refined)"
    using r by (simp add: RefineAll_def)
  show "disj_lists Refined"
    by (rule RefineAll_disjoint [OF A(1) _ _ _ r', of "{}"]) simp_all
  have "\<forall>g\<in>set []. \<exists>pe. SumPE hv g = Inr pe \<and> T \<le> pe" by simp
  from RefineAll_threshold [OF this, of wt HPF] r'
  show "\<forall>g\<in>set Refined. \<exists>pe. SumPE hv g = Inr pe \<and> T \<le> pe" by auto
qed

lemma ProcessFrame_stages:
  assumes "ProcessFrame frame wfs HitVector FlashVector AssocList BinWidth ChannelMap geom
      HitThreshold FlashThreshold WidthTolerance ts SPESize TrigCoinc = Some (Inr (hv', fv', al'))"
  shows "\<exists>A1 A2 Refined fv R'.
     CollectHits HitThreshold FlashThreshold BinWidth ts SPESize ChannelMap frame
       (NOpChannels geom) wfs HitVector = Inr (hv', A1, A2) \<and>
     FrameRefinedHits FlashThreshold WidthTolerance hv' A1 A2 (length hv' - length HitVector)
       = Some (Inr Refined) \<and>
     foldE (\<lambda>hs fv. ConstructFlash hs hv' fv geom (BeamGateFrame ts) frame TrigCoinc)
       Refined FlashVector = Inr fv \<and>
     RemoveLateLight fv Refined = Inr (fv', R') \<and>
     al' = AssocList @ map (map (\<lambda>h. h + int (length HitVector))) R'"
  using assms
  by (auto simp: ProcessFrame_def split: sum.splits option.splits prod.splits)

text \<open>The equations that evaluate the processing of a frame on a concrete input.\<close>

lemmas frame_defs = ProcessFrame_def CollectHits_def ProcessWaveform_def ProcessPulse_def
  ConstructHit_def GetAccumIndex_def FillAccumulator_def NBins_def EmptyAccumulator_def
  uint_to_int_def vec_at_def vec_at_int_def FrameRefinedHits_def AssignHitsToFlash_def
  FillFlashesBySizeMap_def FillHitsThisFlash_def SumPE_def ClaimHits_def ClaimBin_def
  RefineAll_def RefineHitsInFlash_def FillHitsBySize_def AddHitToFlash_def GrowScan_def
  CheckAndStoreFlash_def ConstructFlash_def FlashSumsOf_def AddHitContribution_def
  GetHitGeometryInfo_def CalculateWidth_def RemoveLateLight_def RemoveFlashesFromVectors_def
  sort_flash_by_time_def MarkFlashesForRemoval_def MarkOuter_def MarkInner_def
  GetLikelihoodLateLight_def HypPE_def TotalPE_def dsub_def RunFlashFinder_def RegatherPE_def
  GrowLoop.simps RefineLoop.simps dround_numeral dround_0 dround_1
  example_ts_def example_geom_def example_map_def example_pulse_def example_wf_def
  example_hit_def

lemma ProcessFrame_example:
  "\<exists>hv' fv'. ProcessFrame 0
      [example_wf 0 0 [example_pulse 5 100], example_wf 0 1 [example_pulse 3 102]]
      [] [] [] 10 example_map example_geom 1 6 1 example_ts [1, 1] 1
    = Some (Inr (hv', fv', [[0, 1]])) \<and>
    hv' = [example_hit 0 0 5 100, example_hit 0 1 3 102]"
  by (simp add: frame_defs)

text \<open>
  ClaimHits stores a coarse flash only when the PE of its hits reaches the flash
  threshold, and RefineHitsInFlash stores a refined flash only when the PE of its hits
  reaches it. The hit sets that RefinedHitsPerFlash holds when ProcessFrame writes the
  association table, one for each flash that the frame adds, are hit sets of the frame's
  hit vector whose summed PE reaches the threshold. The entries of the table are these
  sets with the number of hits of the earlier frames added to every index: on an empty
  hit vector they are the sets themselves, on a later frame they name other hits.
\<close>

lemma refined_hit_sets_meet_threshold:
  "(AssignHitsToFlash F1 F2 B1 B2 C1 C2 NHits hv [] FlashThreshold = Inr HPF \<longrightarrow>
      (\<forall>hs\<in>set HPF. \<exists>pe. SumPE hv hs = Inr pe \<and> FlashThreshold \<le> pe)) \<and>
   (RefineHitsInFlash HitsThisFlash hv R WidthTolerance FlashThreshold = Some (Inr R') \<longrightarrow>
      (\<exists>Rnew. R' = R @ Rnew \<and>
         (\<forall>hs\<in>set Rnew. \<exists>pe. SumPE hv hs = Inr pe \<and> FlashThreshold \<le> pe))) \<and>
   (ProcessFrame frame wfs HitVector FlashVector AssocList BinWidth ChannelMap geom
      HitThreshold FlashThreshold WidthTolerance ts SPESize TrigCoinc
        = Some (Inr (hv', fv', al')) \<longrightarrow>
      (\<exists>Refined'. al' = AssocList @ map (map (\<lambda>h. h + int (length HitVector))) Refined' \<and>
         length fv' = length FlashVector + length Refined' \<and>
         (\<forall>hs\<in>set Refined'. \<exists>pe. SumPE hv' hs = Inr pe \<and> FlashThreshold \<le> pe)))"
  (is "?A \<and> ?B \<and> ?C")
proof -
  have A: ?A using AssignHitsToFlash_inv(2) by blast
  have B: ?B
  proof
    assume r: "RefineHitsInFlash HitsThisFlash hv R WidthTolerance FlashThreshold = Some (Inr R')"
    from RefineHitsInFlash_result [of HitsThisFlash hv R WidthTolerance FlashThreshold] r
    obtain Rnew where "R' = R @ Rnew"
      "\<forall>g\<in>set Rnew. RefinedOK (set HitsThisFlash) hv FlashThreshold g" by auto
    then show "\<exists>Rnew. R' = R @ Rnew \<and>
         (\<forall>hs\<in>set Rnew. \<exists>pe. SumPE hv hs = Inr pe \<and> FlashThreshold \<le> pe)"
      using RefinedOK_SumPE by blast
  qed
  have C: ?C
  proof
    assume p: "ProcessFrame frame wfs HitVector FlashVector AssocList BinWidth ChannelMap geom
      HitThreshold FlashThreshold WidthTolerance ts SPESize TrigCoinc
        = Some (Inr (hv', fv', al'))"
    from ProcessFrame_stages [OF p] obtain A1 A2 Refined fv Rf where
      f: "FrameRefinedHits FlashThreshold WidthTolerance hv' A1 A2 (length hv' - length HitVector)
            = Some (Inr Refined)" and
      c: "foldE (\<lambda>hs fv. ConstructFlash hs hv' fv geom (BeamGateFrame ts) frame TrigCoinc)
            Refined FlashVector = Inr fv" and
      l: "RemoveLateLight fv Refined = Inr (fv', Rf)" and
      a: "al' = AssocList @ map (map (\<lambda>h. h + int (length HitVector))) Rf"
      by blast
    note F = FrameRefinedHits_result [OF f]
    note L = RemoveLateLight_result [OF l]
    have len: "length fv = length FlashVector + length Refined"
      by (rule foldE_ConstructFlash_length [OF c])
    have "length fv' = length FlashVector + length Rf" using L(3) len by simp
    moreover have "\<forall>hs\<in>set Rf. \<exists>pe. SumPE hv' hs = Inr pe \<and> FlashThreshold \<le> pe"
      using F(2) L(1) by blast
    ultimately show "\<exists>Refined'. al' = AssocList @ map (map (\<lambda>h. h + int (length HitVector))) Refined' \<and>
         length fv' = length FlashVector + length Refined' \<and>
         (\<forall>hs\<in>set Refined'. \<exists>pe. SumPE hv' hs = Inr pe \<and> FlashThreshold \<le> pe)"
      using a by blast
  qed
  from A B C show ?thesis by blast
qed

text \<open>On the first frame, where the hit vector is empty on entry, the entries that the
  frame appends to the association table are themselves hit sets of summed PE at least
  the threshold.\<close>

lemma first_frame_entries_meet_threshold:
  assumes "ProcessFrame frame wfs [] FlashVector AssocList BinWidth ChannelMap geom
      HitThreshold FlashThreshold WidthTolerance ts SPESize TrigCoinc
        = Some (Inr (hv', fv', al'))"
  shows "\<forall>hs\<in>set (drop (length AssocList) al').
           \<exists>pe. SumPE hv' hs = Inr pe \<and> FlashThreshold \<le> pe"
proof -
  from refined_hit_sets_meet_threshold [THEN conjunct2, THEN conjunct2, rule_format, OF assms]
  obtain Refined' where
    a: "al' = AssocList @ map (map (\<lambda>h. h + int (length ([] :: OpHit list)))) Refined'" and
    t: "\<forall>hs\<in>set Refined'. \<exists>pe. SumPE hv' hs = Inr pe \<and> FlashThreshold \<le> pe"
    by blast
  have "map (map (\<lambda>h. h + int (length ([] :: OpHit list)))) Refined' = Refined'"
    by (induction Refined') (simp_all add: map_idI)
  then have "drop (length AssocList) al' = Refined'" using a by simp
  then show ?thesis using t by simp
qed

text \<open>
  C2. No two coarse flashes that AssignHitsToFlash stores share a hit; the refined
  flashes that RefineHitsInFlash stores for one coarse flash are hits of that coarse
  flash and no two of them share a hit; and no two entries that ProcessFrame appends to
  the association table share a hit index.
\<close>

theorem flash_hit_sets_disjoint:
  "(AssignHitsToFlash F1 F2 B1 B2 C1 C2 NHits hv [] FlashThreshold = Inr HPF \<longrightarrow>
      (\<forall>i j. i < j \<and> j < length HPF \<longrightarrow> set (HPF ! i) \<inter> set (HPF ! j) = {})) \<and>
   (RefineHitsInFlash HitsThisFlash hv R WidthTolerance FlashThreshold = Some (Inr R') \<longrightarrow>
      (\<exists>Rnew. R' = R @ Rnew \<and> (\<forall>g\<in>set Rnew. set g \<subseteq> set HitsThisFlash) \<and>
         (\<forall>i j. i < j \<and> j < length Rnew \<longrightarrow> set (Rnew ! i) \<inter> set (Rnew ! j) = {}))) \<and>
   (ProcessFrame frame wfs HitVector FlashVector AssocList BinWidth ChannelMap geom
      HitThreshold FlashThreshold WidthTolerance ts SPESize TrigCoinc
        = Some (Inr (hv', fv', al')) \<longrightarrow>
      length AssocList \<le> length al' \<and>
      (\<forall>i j. length AssocList \<le> i \<and> i < j \<and> j < length al' \<longrightarrow>
         set (al' ! i) \<inter> set (al' ! j) = {}))"
  (is "?A \<and> ?B \<and> ?C")
proof -
  have A: ?A using AssignHitsToFlash_inv(1) disj_lists_nth by blast
  have B: ?B
  proof
    assume r: "RefineHitsInFlash HitsThisFlash hv R WidthTolerance FlashThreshold = Some (Inr R')"
    from RefineHitsInFlash_result [of HitsThisFlash hv R WidthTolerance FlashThreshold] r
    obtain Rnew where Rn: "R' = R @ Rnew"
      "\<forall>g\<in>set Rnew. RefinedOK (set HitsThisFlash) hv FlashThreshold g" "disj_lists Rnew"
      by auto
    have "\<forall>g\<in>set Rnew. set g \<subseteq> set HitsThisFlash" using Rn(2) RefinedOK_subset by blast
    moreover have "\<forall>i j. i < j \<and> j < length Rnew \<longrightarrow> set (Rnew ! i) \<inter> set (Rnew ! j) = {}"
      using Rn(3) disj_lists_nth by blast
    ultimately show "\<exists>Rnew. R' = R @ Rnew \<and> (\<forall>g\<in>set Rnew. set g \<subseteq> set HitsThisFlash) \<and>
         (\<forall>i j. i < j \<and> j < length Rnew \<longrightarrow> set (Rnew ! i) \<inter> set (Rnew ! j) = {})"
      using Rn(1) by blast
  qed
  have C: ?C
  proof
    assume p: "ProcessFrame frame wfs HitVector FlashVector AssocList BinWidth ChannelMap geom
      HitThreshold FlashThreshold WidthTolerance ts SPESize TrigCoinc
        = Some (Inr (hv', fv', al'))"
    from ProcessFrame_stages [OF p] obtain A1 A2 Refined fv Rf where
      f: "FrameRefinedHits FlashThreshold WidthTolerance hv' A1 A2 (length hv' - length HitVector)
            = Some (Inr Refined)" and
      l: "RemoveLateLight fv Refined = Inr (fv', Rf)" and
      a: "al' = AssocList @ map (map (\<lambda>h. h + int (length HitVector))) Rf"
      by blast
    note F = FrameRefinedHits_result [OF f]
    note L = RemoveLateLight_result [OF l]
    let ?new = "map (map (\<lambda>h. h + int (length HitVector))) Rf"
    have "inj (\<lambda>h. h + int (length HitVector))" by (simp add: inj_on_def)
    then have d: "disj_lists ?new" using F(1) L(2) by (simp add: disj_lists_map)
    have "\<forall>i j. length AssocList \<le> i \<and> i < j \<and> j < length al' \<longrightarrow>
         set (al' ! i) \<inter> set (al' ! j) = {}"
    proof (intro allI impI)
      fix i j assume h: "length AssocList \<le> i \<and> i < j \<and> j < length al'"
      then have "i - length AssocList < j - length AssocList"
        "j - length AssocList < length ?new" using a by auto
      from disj_lists_nth [OF d this]
      show "set (al' ! i) \<inter> set (al' ! j) = {}" using h a by (simp add: nth_append)
    qed
    then show "length AssocList \<le> length al' \<and>
      (\<forall>i j. length AssocList \<le> i \<and> i < j \<and> j < length al' \<longrightarrow>
         set (al' ! i) \<inter> set (al' ! j) = {})" using a by simp
  qed
  from A B C show ?thesis by blast
qed

lemma ProcessFrame_example2:
  "\<exists>hv' fv'. ProcessFrame 0
      [example_wf 0 1 [example_pulse 10 100], example_wf 0 0 [example_pulse 20 2500]]
      [] [] [] 1000 example_map example_geom 1 6 1 example_ts [1, 1] 1
    = Some (Inr (hv', fv', [[1], [0]]))"
  by (simp add: frame_defs)

theorem flash_hit_sets_disjoint_witness:
  "\<exists>hv' fv' al'. ProcessFrame 0
      [example_wf 0 1 [example_pulse 10 100], example_wf 0 0 [example_pulse 20 2500]]
      [] [] [] 1000 example_map example_geom 1 6 1 example_ts [1, 1] 1
    = Some (Inr (hv', fv', al')) \<and> length al' = 2 \<and>
    set (al' ! 0) \<inter> set (al' ! 1) = {}"
proof -
  from ProcessFrame_example2 obtain hv' fv' where
    p: "ProcessFrame 0
      [example_wf 0 1 [example_pulse 10 100], example_wf 0 0 [example_pulse 20 2500]]
      [] [] [] 1000 example_map example_geom 1 6 1 example_ts [1, 1] 1
    = Some (Inr (hv', fv', [[1], [0]]))" by blast
  note T = flash_hit_sets_disjoint [THEN conjunct2, THEN conjunct2, rule_format, OF p,
      THEN conjunct2, rule_format, of 0 1]
  have "set ([[1], [0::int]] ! 0) \<inter> set ([[1], [0]] ! 1) = {}" by (rule T) simp
  with p show ?thesis by auto
qed

section \<open>The association table and the discarded pulses on concrete inputs\<close>

lemma replicate_2: "replicate 2 x = [x, x]"
  by (simp add: numeral_2_eq_2)

lemma replicate_5: "replicate 5 x = [x, x, x, x, x]"
  by (simp add: eval_nat_numeral)

text \<open>
  C1. A run over two frames: frame 0 has one pulse of PE 10 on channel 0, frame 1 has a
  pulse of PE 10 on channel 1 and, much later, a pulse of PE 1 on channel 0; the flash
  threshold is 6. The flash of frame 1 is built from hit 1 alone and stores the
  per-channel PE [0, 10]; its entry of the association table is [2], hit 1 plus the
  number of hits of frame 0, and re-gathering hit 2 gives [1, 0].
\<close>

theorem association_offset_after_first_frame:
  "\<exists>hv fv al.
     RunFlashFinder
       [example_wf 0 0 [example_pulse 10 100],
        example_wf 1 1 [example_pulse 10 100],
        example_wf 1 0 [example_pulse 1 2500]]
       [] [] [] 1000 example_map example_geom 1 6 1 example_ts [1, 1] 1
       = Some (Inr (hv, fv, al)) \<and>
     hv = [example_hit 0 0 10 100, example_hit 1 1 10 100, example_hit 1 0 1 2500] \<and>
     al = [[0], [2]] \<and> length fv = 2 \<and> PEs (fv ! 1) = [0, 10] \<and>
     RegatherPE hv 2 (al ! 1) = Inr [1, 0] \<and>
     RegatherPE hv 2 (al ! 1) \<noteq> Inr (PEs (fv ! 1))"
  by (simp add: frame_defs replicate_2)

text \<open>
  C3. The same run over two frames, under the flash threshold of 6. The flash that
  frame 1 adds is built from hit 1, of PE 10. Its entry of the association table in the
  output is [2]: the index of hit 1 plus the number of hits of frame 0. The hits that
  this entry names have a summed PE of 1, the PE of hit 2, which is below the threshold.
  The entry of the flash of frame 0 is [0], of summed PE 10.
\<close>

theorem association_entry_below_threshold_after_first_frame:
  "\<exists>hv fv al.
     RunFlashFinder
       [example_wf 0 0 [example_pulse 10 100],
        example_wf 1 1 [example_pulse 10 100],
        example_wf 1 0 [example_pulse 1 2500]]
       [] [] [] 1000 example_map example_geom 1 6 1 example_ts [1, 1] 1
       = Some (Inr (hv, fv, al)) \<and>
     length fv = 2 \<and> al = [[0], [2]] \<and>
     SumPE hv (al ! 0) = Inr 10 \<and> SumPE hv (al ! 1) = Inr 1 \<and>
     SumPE hv [1] = Inr 10 \<and> \<not> (6 \<le> (1 :: real))"
  by (simp add: frame_defs replicate_2)

text \<open>A single frame with two flashes that the refinement stores in the order of their PE
  and the time sort puts in the order of their time: the flash vector is reordered, the
  association table is not.\<close>

lemma association_not_sorted_with_flashes:
  "\<exists>hv fv al.
     ProcessFrame 0
       [example_wf 0 1 [example_pulse 10 100], example_wf 0 0 [example_pulse 20 2500]]
       [] [] [] 1000 example_map example_geom 1 6 1 example_ts [1, 1] 1
       = Some (Inr (hv, fv, al)) \<and>
     al = [[1], [0]] \<and> length fv = 2 \<and>
     Time (fv ! 0) = Fin 100 \<and> PEs (fv ! 0) = [0, 10] \<and>
     RegatherPE hv 2 (al ! 0) = Inr [20, 0]"
  by (simp add: frame_defs replicate_2)

text \<open>
  C4. The first loop of ProcessFrame on one waveform of channel 0 with a pulse of peak 10
  at tick 100 and a pulse of peak 1/2 at tick 2500, under a hit threshold of 1 and a
  flash threshold of 6, compared with the same waveform without the second pulse. In
  both runs the hit vector ends with the one hit of the first pulse. With the second
  pulse, hit 0 and its PE of 10 are entered once more, in the bins of tick 2500 (bin 2
  of the first accumulator, bin 3 of the second), and these bins are flagged.
\<close>

theorem below_threshold_pulse_fills_accumulators:
  "CollectHits 1 6 1000 example_ts [1, 1] example_map 0 2
       [example_wf 0 0 [example_pulse 10 100, example_pulse (1 / 2) 2500]] []
     = Inr ([example_hit 0 0 10 100],
            \<lparr>Binned = [10, 0, 10, 0, 0], Contributors = [[0], [], [0], [], []],
             FlashesInAccumulator = [0, 2]\<rparr>,
            \<lparr>Binned = [10, 0, 0, 10, 0], Contributors = [[0], [], [], [0], []],
             FlashesInAccumulator = [0, 3]\<rparr>) \<and>
   CollectHits 1 6 1000 example_ts [1, 1] example_map 0 2
       [example_wf 0 0 [example_pulse 10 100]] []
     = Inr ([example_hit 0 0 10 100],
            \<lparr>Binned = [10, 0, 0, 0, 0], Contributors = [[0], [], [], [], []],
             FlashesInAccumulator = [0]\<rparr>,
            \<lparr>Binned = [10, 0, 0, 0, 0], Contributors = [[0], [], [], [], []],
             FlashesInAccumulator = [0]\<rparr>)"
  by (simp add: frame_defs replicate_5)

text \<open>The body of the pulse loop on the discarded pulse alone, from a hit vector that
  holds the hit of PE 10 and two empty accumulators.\<close>

lemma below_threshold_pulse_step:
  "ProcessPulse 1 6 1000 example_ts [1, 1] 0 1 0 (example_pulse (1 / 2) 2500)
       ([example_hit 0 0 10 100], EmptyAccumulator 5, EmptyAccumulator 5)
     = Inr ([example_hit 0 0 10 100],
            \<lparr>Binned = [0, 0, 10, 0, 0], Contributors = [[], [], [0], [], []],
             FlashesInAccumulator = [2]\<rparr>,
            \<lparr>Binned = [0, 0, 0, 10, 0], Contributors = [[], [], [], [0], []],
             FlashesInAccumulator = [3]\<rparr>)"
  by (simp add: frame_defs replicate_5)

text \<open>With an empty hit vector the same pulse makes ProcessFrame read the last element of
  an empty vector; as the first pulse of a later frame it enters the last hit of the
  frame before into the accumulators, and claiming that hit throws.\<close>

lemma below_threshold_pulse_on_empty_hit_vector:
  "ProcessPulse 1 6 1000 example_ts [1, 1] 0 1 0 (example_pulse (1 / 2) 2500)
       ([], EmptyAccumulator 5, EmptyAccumulator 5) = Inl UndefinedBehaviour"
  by (simp add: frame_defs)

lemma below_threshold_pulse_first_in_later_frame:
  "RunFlashFinder
     [example_wf 0 0 [example_pulse 10 100], example_wf 1 1 [example_pulse (1 / 2) 2500]]
     [] [] [] 1000 example_map example_geom 1 6 1 example_ts [1, 1] 1
   = Some (Inl OutOfRange)"
  by (simp add: frame_defs)

section \<open>The rounded difference of FillAccumulator in a frame\<close>

text \<open>The two runs of FillAccumulator under a flash threshold of 1, as ProcessFrame makes
  them on one waveform whose pulses peak at the same tick, with a single-photoelectron
  size of 1. Pulses of peak 1 and 0.4: bin 0 of both accumulators is flagged twice.\<close>

lemma reflagged_bin_in_frame:
  "\<exists>hv A1 A2.
     CollectHits (1 / 16) 1 1000 example_ts [1, 1] example_map 0 2
       [example_wf 0 0 [example_pulse 1 100, example_pulse (3602879701896397 / 2 ^ 53) 100]] []
     = Inr (hv, A1, A2) \<and> length hv = 2 \<and>
     FlashesInAccumulator A1 = [0, 0] \<and> FlashesInAccumulator A2 = [0, 0]"
proof -
  have r1: "dround (12610078956637389 / 9007199254740992) = 3152519739159347 / 2251799813685248"
    using dround_up [of 0 "12610078956637389 / 9007199254740992"] by (simp add: rne_def)
  have r2: "dround (9007199254740991 / 9007199254740992) = 9007199254740991 / 9007199254740992"
    using dround_down [of 1 "9007199254740991 / 9007199254740992"] by (simp add: rne_def)
  show ?thesis
    by (simp add: frame_defs replicate_5 r1 r2)
qed

text \<open>Pulses of peak 0.2, 0.7, 0.1 and 0.2: the four hits fall into bin 0 of both
  accumulators, their PE sums to more than the threshold, no bin is flagged and
  ProcessFrame adds no flash.\<close>

lemma unflagged_bin_loses_flash:
  "\<exists>hv.
     ProcessFrame 0
       [example_wf 0 0 [example_pulse (3602879701896397 / 2 ^ 54) 100,
                        example_pulse (3152519739159347 / 2 ^ 52) 100,
                        example_pulse (3602879701896397 / 2 ^ 55) 100,
                        example_pulse (3602879701896397 / 2 ^ 54) 100]]
       [] [] [] 1000 example_map example_geom (1 / 16) 1 1 example_ts [1, 1] 1
       = Some (Inr (hv, [], [])) \<and>
     SumPE hv [0, 1, 2, 3] = Inr (43234556422756761 / 2 ^ 55) \<and>
     (1 :: real) \<le> 43234556422756761 / 2 ^ 55"
proof -
  have s1: "dround (3602879701896397 / 18014398509481984) = 3602879701896397 / 18014398509481984"
    using dround_down [of 3 "3602879701896397 / 18014398509481984"] by (simp add: rne_def)
  have s2: "dround (16212958658533785 / 18014398509481984) = 2026619832316723 / 2251799813685248"
    using dround_down [of 1 "16212958658533785 / 18014398509481984"] by (simp add: rne_def)
  have s3: "dround (36028797018963965 / 36028797018963968) = 9007199254740991 / 9007199254740992"
    using dround_down [of 1 "36028797018963965 / 36028797018963968"] by (simp add: rne_def)
  have s4: "dround (21617278211378379 / 18014398509481984) = 5404319552844595 / 4503599627370496"
    using dround_up [of 0 "21617278211378379 / 18014398509481984"] by (simp add: rne_def)
  have d4: "dround (18014398509481983 / 18014398509481984) = 1"
    using dround_down [of 1 "18014398509481983 / 18014398509481984"] by (simp add: rne_def)
  show ?thesis
    by (simp add: frame_defs replicate_5 s1 s2 s3 s4 d4)
qed

section \<open>Properties of the flash builder\<close>

lemma AddHitContribution_sums:
  assumes "AddHitContribution h s = Inr s1"
  shows "SumTotalPE s1 = SumTotalPE s + PE h" "sumy2 s1 = sumy2 s" "sumz2 s1 = sumz2 s"
    "sumw2 s1 = sumw2 s" "sumw s1 = sumw s"
  using assms by (auto simp: AddHitContribution_def split: sum.splits)

lemma plane_loop_sums:
  assumes "foldE (\<lambda>p t.
                    case vec_at (sumw t) p of
                      Inl e \<Rightarrow> Inl e
                    | Inr a \<Rightarrow>
                        (case vec_at (sumw2 t) p of
                           Inl e \<Rightarrow> Inl e
                         | Inr b \<Rightarrow>
                             Inr (t\<lparr>sumw := (sumw t)[p := a + w1 p * pe],
                                    sumw2 := (sumw2 t)[p := b + w2 p * pe]\<rparr>)))
                 ps s = Inr t"
    and "0 \<le> pe" "\<forall>p. 0 \<le> w2 p"
  shows "SumTotalPE t = SumTotalPE s \<and> sumy2 t = sumy2 s \<and> sumz2 t = sumz2 s \<and>
     length (sumw2 t) = length (sumw2 s) \<and> length (sumw t) = length (sumw s) \<and>
     ((\<forall>p<length (sumw2 s). 0 \<le> sumw2 s ! p) \<longrightarrow> (\<forall>p<length (sumw2 s). 0 \<le> sumw2 t ! p))"
proof (rule foldE_preserves [where P = "\<lambda>t. SumTotalPE t = SumTotalPE s \<and> sumy2 t = sumy2 s \<and>
     sumz2 t = sumz2 s \<and>
     length (sumw2 t) = length (sumw2 s) \<and> length (sumw t) = length (sumw s) \<and>
     ((\<forall>p<length (sumw2 s). 0 \<le> sumw2 s ! p) \<longrightarrow> (\<forall>p<length (sumw2 s). 0 \<le> sumw2 t ! p))",
     OF _ _ assms(1)])
  show "SumTotalPE s = SumTotalPE s \<and> sumy2 s = sumy2 s \<and> sumz2 s = sumz2 s \<and>
     length (sumw2 s) = length (sumw2 s) \<and> length (sumw s) = length (sumw s) \<and>
     ((\<forall>p<length (sumw2 s). 0 \<le> sumw2 s ! p) \<longrightarrow> (\<forall>p<length (sumw2 s). 0 \<le> sumw2 s ! p))"
    by simp
next
  fix p t t'
  assume P: "SumTotalPE t = SumTotalPE s \<and> sumy2 t = sumy2 s \<and> sumz2 t = sumz2 s \<and>
     length (sumw2 t) = length (sumw2 s) \<and> length (sumw t) = length (sumw s) \<and>
     ((\<forall>p<length (sumw2 s). 0 \<le> sumw2 s ! p) \<longrightarrow> (\<forall>p<length (sumw2 s). 0 \<le> sumw2 t ! p))"
    and e: "(case vec_at (sumw t) p of
                      Inl e \<Rightarrow> Inl e
                    | Inr a \<Rightarrow>
                        (case vec_at (sumw2 t) p of
                           Inl e \<Rightarrow> Inl e
                         | Inr b \<Rightarrow>
                             Inr (t\<lparr>sumw := (sumw t)[p := a + w1 p * pe],
                                    sumw2 := (sumw2 t)[p := b + w2 p * pe]\<rparr>))) = Inr t'"
  from e have p: "p < length (sumw t)" "p < length (sumw2 t)"
    and t': "t' = t\<lparr>sumw := (sumw t)[p := sumw t ! p + w1 p * pe],
                    sumw2 := (sumw2 t)[p := sumw2 t ! p + w2 p * pe]\<rparr>"
    by (auto simp: vec_at_def split: if_splits)
  have "0 \<le> w2 p * pe" using assms(2,3) by simp
  then show "SumTotalPE t' = SumTotalPE s \<and> sumy2 t' = sumy2 s \<and> sumz2 t' = sumz2 s \<and>
     length (sumw2 t') = length (sumw2 s) \<and> length (sumw t') = length (sumw s) \<and>
     ((\<forall>p<length (sumw2 s). 0 \<le> sumw2 s ! p) \<longrightarrow> (\<forall>p<length (sumw2 s). 0 \<le> sumw2 t' ! p))"
    using P p by (auto simp: t' nth_list_update)
qed

lemma GetHitGeometryInfo_sums:
  assumes "GetHitGeometryInfo h geom s = Inr s1" "0 \<le> PE h"
  shows "SumTotalPE s1 = SumTotalPE s" "sumy2 s \<le> sumy2 s1" "sumz2 s \<le> sumz2 s1"
    "length (sumw2 s1) = length (sumw2 s)" "length (sumw s1) = length (sumw s)"
    "(\<forall>p<length (sumw2 s). 0 \<le> sumw2 s ! p) \<longrightarrow> (\<forall>p<length (sumw2 s). 0 \<le> sumw2 s1 ! p)"
proof -
  let ?c = "OpDetCenter geom (OpChannel h)"
  let ?w1 = "\<lambda>p. real (NearestWire geom ?c p)"
  let ?w2 = "\<lambda>p. real ((NearestWire geom ?c p * NearestWire geom ?c p) mod 2 ^ 32)"
  from assms(1) obtain t where
    loop: "foldE (\<lambda>p t.
                    case vec_at (sumw t) p of
                      Inl e \<Rightarrow> Inl e
                    | Inr a \<Rightarrow>
                        (case vec_at (sumw2 t) p of
                           Inl e \<Rightarrow> Inl e
                         | Inr b \<Rightarrow>
                             Inr (t\<lparr>sumw := (sumw t)[p := a + ?w1 p * PE h],
                                    sumw2 := (sumw2 t)[p := b + ?w2 p * PE h]\<rparr>)))
                 [0 ..< Nplanes geom] s = Inr t"
    and s1: "s1 = t\<lparr>sumy := sumy t + fst (snd ?c) * PE h,
                 sumy2 := sumy2 t + fst (snd ?c) * fst (snd ?c) * PE h,
                 sumz := sumz t + snd (snd ?c) * PE h,
                 sumz2 := sumz2 t + snd (snd ?c) * snd (snd ?c) * PE h\<rparr>"
    by (auto simp: GetHitGeometryInfo_def split: sum.splits)
  have w2: "\<forall>p. 0 \<le> ?w2 p" by simp
  note L = plane_loop_sums [OF loop assms(2) w2]
  have y: "0 \<le> fst (snd ?c) * fst (snd ?c) * PE h" using assms(2) by simp
  have z: "0 \<le> snd (snd ?c) * snd (snd ?c) * PE h" using assms(2) by simp
  show "SumTotalPE s1 = SumTotalPE s" using L by (simp add: s1)
  show "sumy2 s \<le> sumy2 s1" using L y by (simp add: s1)
  show "sumz2 s \<le> sumz2 s1" using L z by (simp add: s1)
  show "length (sumw2 s1) = length (sumw2 s)" using L by (simp add: s1)
  show "length (sumw s1) = length (sumw s)" using L by (simp add: s1)
  show "(\<forall>p<length (sumw2 s). 0 \<le> sumw2 s ! p) \<longrightarrow> (\<forall>p<length (sumw2 s). 0 \<le> sumw2 s1 ! p)"
    using L by (simp add: s1)
qed

lemma FlashSums_loop:
  assumes "foldE (\<lambda>HitID s.
              case vec_at_int hv HitID of
                Inl e \<Rightarrow> Inl e
              | Inr h \<Rightarrow>
                  (case AddHitContribution h s of
                     Inl e \<Rightarrow> Inl e
                   | Inr s1 \<Rightarrow> GetHitGeometryInfo h geom s1))
           hs s0 = Inr s"
    and "\<forall>h\<in>set hv. 0 \<le> PE h"
    and "0 \<le> sumy2 s0" "0 \<le> sumz2 s0" "\<forall>p<length (sumw2 s0). 0 \<le> sumw2 s0 ! p"
  shows "SumTotalPE s = SumTotalPE s0 + PEsum hv hs \<and> 0 \<le> sumy2 s \<and> 0 \<le> sumz2 s \<and>
     length (sumw2 s) = length (sumw2 s0) \<and> length (sumw s) = length (sumw s0) \<and>
     (\<forall>p<length (sumw2 s0). 0 \<le> sumw2 s ! p)"
  using assms(1,3,4,5)
proof (induction hs arbitrary: s0)
  case Nil
  then show ?case by (simp add: PEsum_def)
next
  case (Cons HitID hs)
  from Cons.prems(1) obtain h s1 s2 where
    h: "vec_at_int hv HitID = Inr h" and
    a: "AddHitContribution h s0 = Inr s1" and
    g: "GetHitGeometryInfo h geom s1 = Inr s2" and
    r: "foldE (\<lambda>HitID s.
              case vec_at_int hv HitID of
                Inl e \<Rightarrow> Inl e
              | Inr h \<Rightarrow>
                  (case AddHitContribution h s of
                     Inl e \<Rightarrow> Inl e
                   | Inr s1 \<Rightarrow> GetHitGeometryInfo h geom s1))
           hs s2 = Inr s"
    by (auto split: sum.splits)
  have hh: "h = hv ! nat HitID" "nat HitID < length hv" using h by (simp_all add: vec_at_int_Inr)
  then have pe: "0 \<le> PE h" using assms(2) by simp
  note A = AddHitContribution_sums [OF a]
  note G = GetHitGeometryInfo_sums [OF g pe]
  have p1: "0 \<le> sumy2 s2" using Cons.prems(2) A(2) G(2) by simp
  have p2: "0 \<le> sumz2 s2" using Cons.prems(3) A(3) G(3) by simp
  have p3: "\<forall>p<length (sumw2 s2). 0 \<le> sumw2 s2 ! p"
    using Cons.prems(4) A(4) G(4,6) by simp
  from Cons.IH [OF r p1 p2 p3]
  show ?case using A G hh by (simp add: PEsum_def)
qed

lemma FlashSumsOf_sums:
  assumes "FlashSumsOf hs hv geom = Inr s" "\<forall>h\<in>set hv. 0 \<le> PE h"
  shows "SumTotalPE s = PEsum hv hs" "0 \<le> sumy2 s" "0 \<le> sumz2 s"
    "length (sumw2 s) = Nplanes geom" "length (sumw s) = Nplanes geom"
    "\<forall>p<Nplanes geom. 0 \<le> sumw2 s ! p"
  using FlashSums_loop [OF assms(1) [unfolded FlashSumsOf_def] assms(2)]
  by simp_all

lemma CalculateWidth_Fin:
  assumes "0 < W" "0 \<le> sq"
  shows "\<exists>x. CalculateWidth sm sq W = Fin x"
proof -
  have "0 \<le> sq * W + sm * sm" using assms by simp
  then show ?thesis using assms(1) by (simp add: CalculateWidth_def)
qed

text \<open>
  C5. With a positive flash threshold and hits of non-negative PE, for every hit set
  that the frame's assignment and refinement pass to ConstructFlash, the total PE that
  the loop of ConstructFlash accumulates, the divisor of every quotient of
  ConstructFlash, is at least the threshold and so positive; the flash that
  ConstructFlash appends has finite average time, absolute time, fast-to-total
  fraction, centres and widths.
\<close>

theorem flash_builder_divisor_positive:
  assumes "0 < FlashThreshold" "\<forall>h\<in>set hv. 0 \<le> PE h"
    and "FrameRefinedHits FlashThreshold WidthTolerance hv Acc1 Acc2 NHits = Some (Inr Refined)"
    and "hs \<in> set Refined"
    and "FlashSumsOf hs hv geom = Inr s"
  shows "FlashThreshold \<le> SumTotalPE s \<and> 0 < SumTotalPE s \<and>
     (\<exists>f. ConstructFlash hs hv fv geom TrigFrame frame TrigCoinc = Inr (fv @ [f]) \<and>
        (\<exists>t a q y z yw zw.
           Time f = Fin t \<and> AbsTime f = Fin a \<and> FlashFastToTotal f = Fin q \<and>
           YCenter f = Fin y \<and> ZCenter f = Fin z \<and> YWidth f = Fin yw \<and> ZWidth f = Fin zw) \<and>
        (\<forall>p<Nplanes geom. \<exists>c w. WireCenters f ! p = Fin c \<and> WireWidths f ! p = Fin w))"
proof -
  from FrameRefinedHits_result(2) [OF assms(3)] assms(4)
  obtain pe where pe: "SumPE hv hs = Inr pe" "FlashThreshold \<le> pe" by blast
  then have "pe = PEsum hv hs" by (simp add: SumPE_iff)
  note S = FlashSumsOf_sums [OF assms(5) assms(2)]
  have thr: "FlashThreshold \<le> SumTotalPE s" using S(1) pe \<open>pe = PEsum hv hs\<close> by simp
  then have pos: "0 < SumTotalPE s" using assms(1) by simp
  then have ne: "SumTotalPE s \<noteq> 0" by simp
  obtain yw where yw: "CalculateWidth (sumy s) (sumy2 s) (SumTotalPE s) = Fin yw"
    using CalculateWidth_Fin [OF pos S(2)] by blast
  obtain zw where zw: "CalculateWidth (sumz s) (sumz2 s) (SumTotalPE s) = Fin zw"
    using CalculateWidth_Fin [OF pos S(3)] by blast
  have wires: "\<forall>p<Nplanes geom. \<exists>w. CalculateWidth (sumw s ! p) (sumw2 s ! p) (SumTotalPE s) = Fin w"
    using CalculateWidth_Fin [OF pos] S(6) by blast
  show ?thesis
    using thr pos ne yw zw wires assms(5) by (simp add: ConstructFlash_def)
qed

lemma FrameRefinedHits_example:
  "FrameRefinedHits 6 1 [example_hit 0 0 5 100, example_hit 0 1 3 102]
     \<lparr>Binned = [8, 0, 0, 0, 0], Contributors = [[0, 1], [], [], [], []],
      FlashesInAccumulator = [0]\<rparr>
     \<lparr>Binned = [8, 0, 0, 0, 0], Contributors = [[0, 1], [], [], [], []],
      FlashesInAccumulator = [0]\<rparr> 2 = Some (Inr [[0, 1]])"
  by (simp add: frame_defs)

lemma FlashSumsOf_example:
  "\<exists>s. FlashSumsOf [0, 1] [example_hit 0 0 5 100, example_hit 0 1 3 102] example_geom = Inr s"
  by (simp add: frame_defs)

theorem flash_builder_divisor_positive_witness:
  "\<exists>s f. FlashSumsOf [0, 1] [example_hit 0 0 5 100, example_hit 0 1 3 102] example_geom = Inr s \<and>
     6 \<le> SumTotalPE s \<and> 0 < SumTotalPE s \<and>
     ConstructFlash [0, 1] [example_hit 0 0 5 100, example_hit 0 1 3 102] [] example_geom 0 0 1
       = Inr ([] @ [f]) \<and>
     (\<exists>t. Time f = Fin t)"
proof -
  let ?hv = "[example_hit 0 0 5 100, example_hit 0 1 3 102]"
  from FlashSumsOf_example obtain s where s: "FlashSumsOf [0, 1] ?hv example_geom = Inr s"
    by blast
  have t: "(0::real) < 6" by simp
  have pe: "\<forall>h\<in>set ?hv. 0 \<le> PE h" by (simp add: example_hit_def)
  have m: "[0, 1] \<in> set [[0, 1 :: int]]" by simp
  note T = flash_builder_divisor_positive [OF t pe FrameRefinedHits_example m s,
      of "[]" 0 0 1]
  then show ?thesis using s by blast
qed

end
